theory Spec2Isabelle
  imports Main
begin

section \<open>Strings\<close>

text \<open>
  A Go string is a sequence of bytes; it is modelled as a \<open>string\<close>, one \<open>char\<close> per
  byte. The functions of this section are the ones of Go's standard library that
  \<open>main.go\<close> calls: \<open>strings.Index\<close>, \<open>strings.Split\<close> and the replacement of the
  regular expression of \<open>splitVol\<close>.
\<close>

text \<open>
  \<open>strings.Index(s, substr)\<close>: the index of the first instance of \<open>substr\<close> in \<open>s\<close>,
  \<open>None\<close> where Go returns \<open>-1\<close>.
\<close>

fun Index :: "string \<Rightarrow> string \<Rightarrow> nat option" where
  "Index [] substr = (if substr = [] then Some 0 else None)"
| "Index (c # cs) substr =
     (if take (length substr) (c # cs) = substr then Some 0
      else map_option Suc (Index cs substr))"

text \<open>
  \<open>utf8.DecodeRuneInString\<close>, the width it returns: the number of bytes of the first
  UTF-8 sequence of a non-empty string, 1 for a byte that starts no well-formed sequence.
\<close>

definition byte :: "char \<Rightarrow> nat" where
  "byte c = of_char c"

definition rune_width :: "string \<Rightarrow> nat" where
  "rune_width s =
     (case s of
        [] \<Rightarrow> 0
      | c0 # r \<Rightarrow>
          (let b0 = byte c0 in
           if b0 < 0xC2 \<or> 0xF4 < b0 then 1
           else
             (let sz = (if b0 < 0xE0 then 2 else if b0 < 0xF0 then 3 else (4::nat));
                  lo = (if b0 = 0xE0 then 0xA0 else if b0 = 0xF0 then 0x90 else 0x80);
                  hi = (if b0 = 0xED then 0x9F else if b0 = 0xF4 then 0x8F else 0xBF)
              in if length s < sz then 1
                 else if byte (s ! 1) < lo \<or> hi < byte (s ! 1) then 1
                 else if sz \<le> 2 then 2
                 else if byte (s ! 2) < 0x80 \<or> 0xBF < byte (s ! 2) then 1
                 else if sz \<le> 3 then 3
                 else if byte (s ! 3) < 0x80 \<or> 0xBF < byte (s ! 3) then 1
                 else 4)))"

lemma rune_width_pos: "s \<noteq> [] \<Longrightarrow> 0 < rune_width s"
  by (cases s) (simp_all add: rune_width_def Let_def)

text \<open>
  \<open>explode(s, -1)\<close> of package \<open>strings\<close>: one string per UTF-8 sequence, bytes that
  belong to no sequence one by one.
\<close>

function explode :: "string \<Rightarrow> string list" where
  "explode s =
     (if s = [] then [] else take (rune_width s) s # explode (drop (rune_width s) s))"
  by pat_completeness auto
termination
  by (relation "measure length") (auto simp: rune_width_pos)

text \<open>
  \<open>strings.Split(s, sep)\<close>, that is \<open>genSplit(s, sep, 0, -1)\<close>: with an empty separator
  the string is exploded; otherwise it is cut at each instance of \<open>sep\<close>, found from the
  left in what remains after the instance before.
\<close>

lemma Index_bound: "sep \<noteq> [] \<Longrightarrow> Index s sep = Some m \<Longrightarrow> m + length sep \<le> length s"
proof (induction s arbitrary: m)
  case Nil
  then show ?case by simp
next
  case (Cons c cs)
  show ?case
  proof (cases "take (length sep) (c # cs) = sep")
    case True
    have "length (take (length sep) (c # cs)) \<le> length (c # cs)"
      by simp
    with True have "length sep \<le> length (c # cs)"
      by (simp only:)
    with True Cons.prems show ?thesis by simp
  next
    case False
    with Cons.prems obtain m' where "Index cs sep = Some m'" "m = Suc m'"
      by auto
    with Cons.IH [OF Cons.prems(1)] show ?thesis by simp
  qed
qed

function Split :: "string \<Rightarrow> string \<Rightarrow> string list" where
  "Split s sep =
     (if sep = [] then explode s
      else
        (case Index s sep of
           None \<Rightarrow> [s]
         | Some m \<Rightarrow> take m s # Split (drop (m + length sep) s) sep))"
  by pat_completeness auto
termination
proof (relation "measure (\<lambda>(s, sep). length s)")
  show "wf (measure (\<lambda>(s, sep). length s))" by simp
next
  fix s sep :: string and m :: nat
  assume "sep \<noteq> []" and "Index s sep = Some m"
  then have le: "m + length sep \<le> length s" and pos: "0 < length sep"
    by (simp_all add: Index_bound)
  have "length s - (m + length sep) < length s"
    using le pos by arith
  then show "((drop (m + length sep) s, sep), (s, sep)) \<in> measure (\<lambda>(s, sep). length s)"
    by simp
qed

declare Split.simps [simp del]
declare explode.simps [simp del]

text \<open>
  \<open>regexp.MustCompile(`[a-z]$`).ReplaceAllString(src, "")\<close>: without the multi-line
  flag \<open>$\<close> matches at the end of the text only, so the one possible match is a last
  byte between \<open>a\<close> and \<open>z\<close>, which is removed.
\<close>

definition ReplaceAllString :: "string \<Rightarrow> string" where
  "ReplaceAllString src =
     (if src \<noteq> [] \<and> 97 \<le> byte (last src) \<and> byte (last src) \<le> 122 then butlast src
      else src)"

section \<open>Outcomes\<close>

text \<open>
  The two ways the process stops before \<open>main\<close> returns: \<open>Fatal\<close> is the exit of a
  \<open>log.Fatal\<close> call, \<open>Panic\<close> a run-time panic (an index out of range, a nil pointer
  dereferenced, an explicit \<open>panic\<close>).
\<close>

datatype abort = Fatal | Panic

section \<open>Volume identifiers\<close>

text \<open>
  \<open>splitVol\<close>: the identifier is cut at \<open>/\<close>; the third piece without its zone letter
  is the region, the fourth the volume. Indexing a slice that is too short panics.
\<close>

definition splitVol :: "string \<Rightarrow> abort + (string \<times> string)" where
  "splitVol vol =
     (let sp = Split vol ''/'' in
      if length sp \<le> 2 then Inl Panic
      else
        (let zone = ReplaceAllString (sp ! 2) in
         if length sp \<le> 3 then Inl Panic else Inr (zone, sp ! 3)))"

section \<open>Data\<close>

text \<open>
  The fields of the Kubernetes and EC2 objects that \<open>main.go\<close> reads. A Go map is
  modelled as the list of its entries in the order in which one \<open>range\<close> loop visits
  them: Go leaves that order open, and the keys of a map are distinct. A pointer that
  \<open>main.go\<close> dereferences is an \<open>option\<close>, \<open>None\<close> for nil. The volumes of a
  response and the tags of a volume are slices of pointers: a nil tag fails where a tag
  with a nil key does and is represented by it, and a nil first volume fails where an
  empty slice of volumes does.
\<close>

record PersistentVolumeClaim =
  Namespace :: string
  Name :: string
  Annotations :: "(string \<times> string) list"
  Spec_VolumeName :: string

record AWSElasticBlockStoreVolumeSource =
  VolumeID :: string

record PersistentVolume =
  AWSElasticBlockStore :: "AWSElasticBlockStoreVolumeSource option"

record Tag =
  Key :: "string option"
  Value :: "string option"

record Volume =
  Tags :: "Tag list"

datatype EventType = Added | Modified | Deleted | Bookmark | Error

datatype Object = Claim PersistentVolumeClaim | Other

record Event =
  Type :: EventType
  Object :: Object

text \<open>
  The values that \<open>main\<close> stores in its context, read back by \<open>logWithCtx\<close>.
\<close>

record Ctx =
  ns :: "string option"
  pvcname :: "string option"
  volname :: "string option"

section \<open>State and environment\<close>

text \<open>
  What the process does to the outside is recorded in a trace, in the order in which it
  happens: every logging call with its level, message and fields (whether or not the
  logger prints entries of that level), and every call of the Kubernetes client and of
  the AWS SDK with its arguments (the EC2 client is known by the region of its session).
\<close>

datatype Level = DebugLevel | InfoLevel | WarnLevel | ErrorLevel | FatalLevel

datatype effect =
    Log Level string "(string \<times> string) list"
  | Call_Get string
  | Call_NewSession string
  | Call_DescribeVolumes string string
  | Call_CreateTags string string string string

text \<open>
  The state of the process: the five Prometheus counters and the trace.
\<close>

record state =
  eventsProcessed :: nat
  tagsAdded :: nat
  tagsExisting :: nat
  volumesTagged :: nat
  processingErrors :: nat
  trace :: "effect list"

text \<open>
  The environment: the two flags that the event loop reads, and the answers of the
  external services. An answer may depend on everything the process has done so far, so
  each service takes the trace at the moment of the call; \<open>Inl\<close> (for \<open>NewSession\<close>,
  \<open>Some\<close>) is the error that the Go call returns.
\<close>

record env =
  debug :: bool
  dryrun :: bool
  PersistentVolumes_Get :: "effect list \<Rightarrow> string \<Rightarrow> string + PersistentVolume"
  NewSession :: "effect list \<Rightarrow> string \<Rightarrow> string option"
  DescribeVolumes :: "effect list \<Rightarrow> string \<Rightarrow> string \<Rightarrow> string + Volume list"
  CreateTags :: "effect list \<Rightarrow> string \<Rightarrow> string \<Rightarrow> string \<Rightarrow> string \<Rightarrow> string + string"

type_synonym 'a result = "(abort \<times> state) + 'a"

section \<open>Logging\<close>

text \<open>
  \<open>logWithCtx\<close>: the fields that the entry takes from the context.
\<close>

definition logWithCtx :: "Ctx \<Rightarrow> (string \<times> string) list" where
  "logWithCtx ctx =
     (case ns ctx of None \<Rightarrow> [] | Some n \<Rightarrow> [(''namespace'', n)]) @
     (case pvcname ctx of None \<Rightarrow> [] | Some n \<Rightarrow> [(''volumeClaimName'', n)]) @
     (case volname ctx of None \<Rightarrow> [] | Some n \<Rightarrow> [(''volumeName'', n)])"

definition emit :: "Level \<Rightarrow> string \<Rightarrow> (string \<times> string) list \<Rightarrow> state \<Rightarrow> state" where
  "emit lvl msg fs st = st\<lparr>trace := trace st @ [Log lvl msg fs]\<rparr>"

definition call :: "effect \<Rightarrow> state \<Rightarrow> state" where
  "call c st = st\<lparr>trace := trace st @ [c]\<rparr>"

section \<open>The claim filter\<close>

text \<open>
  \<open>isEBSVolume\<close>: the loop over the annotations of the claim.
\<close>

fun isEBSVolume_range :: "(string \<times> string) list \<Rightarrow> bool" where
  "isEBSVolume_range [] = False"
| "isEBSVolume_range ((k, v) # rest) =
     (if k = ''volume.beta.kubernetes.io/storage-provisioner'' \<and> v = ''kubernetes.io/aws-ebs''
      then True
      else isEBSVolume_range rest)"

definition isEBSVolume :: "PersistentVolumeClaim \<Rightarrow> bool" where
  "isEBSVolume volume = isEBSVolume_range (Annotations volume)"

section \<open>Reconciling the tags of one volume\<close>

text \<open>
  \<open>hasTag\<close>: the loop over the tags of the volume; the first tag with the key and the
  value counts the tag as existing.
\<close>

fun hasTag ::
  "Ctx \<Rightarrow> Tag list \<Rightarrow> string \<Rightarrow> string \<Rightarrow> string \<Rightarrow> string \<Rightarrow> state \<Rightarrow> (bool \<times> state) result"
where
  "hasTag ctx [] key val awsVolume awsRegion st = Inr (False, st)"
| "hasTag ctx (t # tags) key val awsVolume awsRegion st =
     (case Key t of
        None \<Rightarrow> Inl (Panic, st)
      | Some k \<Rightarrow>
          if k \<noteq> key then hasTag ctx tags key val awsVolume awsRegion st
          else
            (case Value t of
               None \<Rightarrow> Inl (Panic, st)
             | Some v \<Rightarrow>
                 if v = val then
                   (let st1 = emit InfoLevel ''Tag value already exists''
                                (logWithCtx ctx @
                                 [(''tagKey'', key), (''tagValue'', val),
                                  (''volId'', awsVolume), (''region'', awsRegion)]) st
                    in Inr (True, st1\<lparr>tagsExisting := tagsExisting st1 + 1\<rparr>))
                 else hasTag ctx tags key val awsVolume awsRegion st))"

text \<open>
  \<open>setTag\<close>: one \<open>CreateTags\<close> call for one tag; its failure is logged with
  \<open>Fatal\<close>, which ends the process.
\<close>

definition setTag ::
  "env \<Rightarrow> Ctx \<Rightarrow> string \<Rightarrow> string \<Rightarrow> string \<Rightarrow> string \<Rightarrow> state \<Rightarrow> (bool \<times> state) result"
where
  "setTag env ctx svc tagKey tagValue volumeID st =
     (let st1 = call (Call_CreateTags svc volumeID tagKey tagValue) st in
      case CreateTags env (trace st) svc volumeID tagKey tagValue of
        Inl err \<Rightarrow>
          Inl (Fatal,
               emit FatalLevel ''Error creating tags''
                 (logWithCtx ctx @ [(''error'', err), (''volId'', volumeID)]) st1)
      | Inr ret \<Rightarrow>
          (let st2 =
                 (if debug env
                  then emit DebugLevel (''Returned value from CreatesTags call: '' @ ret)
                         (logWithCtx ctx) st1
                  else st1)
           in Inr (True, st2\<lparr>tagsAdded := tagsAdded st2 + 1\<rparr>)))"

text \<open>
  The loop of \<open>addAWSTags\<close> over the tokens of the tag list. \<open>tagAdded\<close> is the local
  variable of that name; \<open>Volumes\<close> is the slice of the response, indexed at 0 for each
  token of two parts.
\<close>

fun addAWSTags_range ::
  "env \<Rightarrow> Ctx \<Rightarrow> string \<Rightarrow> Volume list \<Rightarrow> string \<Rightarrow> string list \<Rightarrow> bool \<Rightarrow> state
     \<Rightarrow> (bool \<times> state) result"
where
  "addAWSTags_range env ctx awsRegion Volumes awsVolume [] tagAdded st = Inr (tagAdded, st)"
| "addAWSTags_range env ctx awsRegion Volumes awsVolume (tag # tags) tagAdded st =
     (let t = Split tag ''='' in
      if length t \<noteq> 2 then
        (let st1 = emit ErrorLevel ''Skipping malformed tag'' (logWithCtx ctx) st in
         addAWSTags_range env ctx awsRegion Volumes awsVolume tags tagAdded
           (st1\<lparr>processingErrors := processingErrors st1 + 1\<rparr>))
      else
        (let st1 = emit InfoLevel ''Processing EBS Volume''
                     (logWithCtx ctx @
                      [(''tagKey'', t ! 0), (''tagValue'', t ! 1),
                       (''volId'', awsVolume), (''region'', awsRegion)]) st
         in case Volumes of
              [] \<Rightarrow> Inl (Panic, st1)
            | v0 # _ \<Rightarrow>
                (case hasTag ctx (Tags v0) (t ! 0) (t ! 1) awsVolume awsRegion st1 of
                   Inl a \<Rightarrow> Inl a
                 | Inr (True, st2) \<Rightarrow>
                     addAWSTags_range env ctx awsRegion Volumes awsVolume tags tagAdded st2
                 | Inr (False, st2) \<Rightarrow>
                     (case setTag env ctx awsRegion (t ! 0) (t ! 1) awsVolume st2 of
                        Inl a \<Rightarrow> Inl a
                      | Inr (_, st3) \<Rightarrow>
                          addAWSTags_range env ctx awsRegion Volumes awsVolume tags True st3))))"

text \<open>
  \<open>addAWSTags\<close>: the identifier is split, a session is opened for the region (a failure
  panics), the volume is described (a failure is counted and ends the reconciliation of
  this claim), the tokens are processed, and the volume is counted once if a tag was set.
\<close>

definition addAWSTags :: "env \<Rightarrow> Ctx \<Rightarrow> string \<Rightarrow> string \<Rightarrow> string \<Rightarrow> state \<Rightarrow> state result" where
  "addAWSTags env ctx awsTags awsVolumeID separator st =
     (case splitVol awsVolumeID of
        Inl a \<Rightarrow> Inl (a, st)
      | Inr (awsRegion, awsVolume) \<Rightarrow>
          (let st1 = call (Call_NewSession awsRegion) st in
           case NewSession env (trace st) awsRegion of
             Some err \<Rightarrow> Inl (Panic, st1)
           | None \<Rightarrow>
               (let tags = Split awsTags separator;
                    st2 = call (Call_DescribeVolumes awsRegion awsVolume) st1
                in case DescribeVolumes env (trace st1) awsRegion awsVolume of
                     Inl err \<Rightarrow>
                       (let st3 = emit ErrorLevel ''Cannot get volume''
                                    (logWithCtx ctx @
                                     [(''error'', err), (''volId'', awsVolume),
                                      (''region'', awsRegion)]) st2
                        in Inr (st3\<lparr>processingErrors := processingErrors st3 + 1\<rparr>))
                   | Inr Volumes \<Rightarrow>
                       (case addAWSTags_range env ctx awsRegion Volumes awsVolume tags False st2 of
                          Inl a \<Rightarrow> Inl a
                        | Inr (tagAdded, st3) \<Rightarrow>
                            Inr (if tagAdded
                                 then st3\<lparr>volumesTagged := volumesTagged st3 + 1\<rparr>
                                 else st3)))))"

section \<open>The event loop\<close>

text \<open>
  The loop of \<open>main\<close> over the annotations of a claim that passed the filter: the
  separator and the tag list, from their defaults.
\<close>

fun annotations_range :: "(string \<times> string) list \<Rightarrow> string \<times> string \<Rightarrow> string \<times> string" where
  "annotations_range [] (separator, tagsToAdd) = (separator, tagsToAdd)"
| "annotations_range ((k, v) # rest) (separator, tagsToAdd) =
     annotations_range rest
       (if k = ''volume.beta.kubernetes.io/additional-resource-tags-separator'' then v
        else separator,
        if k = ''volume.beta.kubernetes.io/additional-resource-tags'' then v
        else tagsToAdd)"

text \<open>
  The body of the loop of \<open>main\<close> for one event of the watch channel. The model of
  \<open>main\<close> starts where the watcher exists; the context is the variable \<open>ctx\<close> of
  \<open>main\<close>, which keeps the values of the last claim.
\<close>

definition process_event :: "env \<Rightarrow> Event \<Rightarrow> Ctx \<Rightarrow> state \<Rightarrow> (Ctx \<times> state) result" where
  "process_event env event ctx st0 =
     (let st = st0\<lparr>eventsProcessed := eventsProcessed st0 + 1\<rparr> in
      case Object event of
        Other \<Rightarrow> Inl (Fatal, emit FatalLevel ''Unexpected event type'' (logWithCtx ctx) st)
      | Claim pvc \<Rightarrow>
          if Type event = Added \<or> Type event = Modified then
            (let namespace = Namespace pvc;
                 volumeClaimName = Name pvc;
                 volumeName = Spec_VolumeName pvc;
                 ctx1 = ctx\<lparr>ns := Some namespace, pvcname := Some volumeClaimName,
                            volname := Some volumeName\<rparr>;
                 st1 = call (Call_Get volumeName) st
             in case PersistentVolumes_Get env (trace st) volumeName of
                  Inl errp \<Rightarrow>
                    (let st2 = emit ErrorLevel
                                 ''Cannot find EBS volume associated with Volume Claim''
                                 (logWithCtx ctx1 @ [(''error'', errp)]) st1
                     in Inr (ctx1, st2\<lparr>processingErrors := processingErrors st2 + 1\<rparr>))
                | Inr awsVolume \<Rightarrow>
                    (case AWSElasticBlockStore awsVolume of
                       None \<Rightarrow> Inl (Panic, st1)
                     | Some source \<Rightarrow>
                         (let awsVolumeID = VolumeID source;
                              st2 = emit InfoLevel ''Processing Volume Tags'' (logWithCtx ctx1) st1
                          in if isEBSVolume pvc then
                               (case annotations_range (Annotations pvc) ('','', '''') of
                                  (separator, tagsToAdd) \<Rightarrow>
                                    if tagsToAdd \<noteq> '''' then
                                      if \<not> dryrun env then
                                        (case addAWSTags env ctx1 tagsToAdd awsVolumeID separator st2 of
                                           Inl a \<Rightarrow> Inl a
                                         | Inr st3 \<Rightarrow> Inr (ctx1, st3))
                                      else
                                        Inr (ctx1,
                                             emit InfoLevel
                                               ''Running in dry run mode, not adding tags''
                                               (logWithCtx ctx1 @
                                                [(''tags'', tagsToAdd), (''volId'', awsVolumeID)])
                                               st2)
                                    else Inr (ctx1, st2))
                             else
                               Inr (ctx1,
                                    emit WarnLevel ''Volume is not EBS. Ignoring''
                                      (logWithCtx ctx1) st2))))
          else Inr (ctx, st))"

text \<open>
  The loop over the events that the channel delivers before it is closed. An abort ends
  the process: the events that follow are not read.
\<close>

fun main_range :: "env \<Rightarrow> Event list \<Rightarrow> Ctx \<Rightarrow> state \<Rightarrow> (Ctx \<times> state) result" where
  "main_range env [] ctx st = Inr (ctx, st)"
| "main_range env (event # events) ctx st =
     (case process_event env event ctx st of
        Inl a \<Rightarrow> Inl a
      | Inr (ctx', st') \<Rightarrow> main_range env events ctx' st')"

section \<open>Observations\<close>

text \<open>
  The state in which a run ends, whether it returns or aborts.
\<close>

definition final :: "'a result \<Rightarrow> ('a \<Rightarrow> state) \<Rightarrow> state" where
  "final r f = (case r of Inl (a, st) \<Rightarrow> st | Inr x \<Rightarrow> f x)"

text \<open>
  What a run from \<open>st\<close> to \<open>st'\<close> added to the trace.
\<close>

definition since :: "state \<Rightarrow> state \<Rightarrow> effect list" where
  "since st st' = drop (length (trace st)) (trace st')"

text \<open>
  How a run ended: the abort, if any.
\<close>

definition aborted :: "'a result \<Rightarrow> abort option" where
  "aborted r = (case r of Inl (a, st) \<Rightarrow> Some a | Inr x \<Rightarrow> None)"

text \<open>
  An effect succeeded, after the history \<open>h\<close>, unless it is a \<open>CreateTags\<close> call to
  which the service answered with an error. A piece of trace is orderly after \<open>h\<close> when
  each of its effects succeeded after what came before it; it is halted when it is an
  orderly piece followed by a \<open>CreateTags\<close> call that failed and by the entry of
  \<open>log.Fatal\<close> for it, and by nothing else.
\<close>

fun succeeded :: "env \<Rightarrow> effect list \<Rightarrow> effect \<Rightarrow> bool" where
  "succeeded env h (Call_CreateTags r vol k v) =
     (case CreateTags env h r vol k v of Inl err \<Rightarrow> False | Inr ret \<Rightarrow> True)"
| "succeeded env h (Call_NewSession r) = True"
| "succeeded env h (Call_DescribeVolumes r vol) = True"
| "succeeded env h (Call_Get n) = True"
| "succeeded env h (Log lvl msg fs) = True"

fun orderly :: "env \<Rightarrow> effect list \<Rightarrow> effect list \<Rightarrow> bool" where
  "orderly env h [] = True"
| "orderly env h (c # tr) = (succeeded env h c \<and> orderly env (h @ [c]) tr)"

definition halted :: "env \<Rightarrow> effect list \<Rightarrow> effect list \<Rightarrow> bool" where
  "halted env h tr =
     (\<exists>pre r vol k v fs.
        tr = pre @ [Call_CreateTags r vol k v, Log FatalLevel ''Error creating tags'' fs] \<and>
        orderly env h pre \<and> \<not> succeeded env (h @ pre) (Call_CreateTags r vol k v))"

text \<open>
  A run from \<open>st\<close> with result \<open>r\<close> is regular when it only added to the trace, and what
  it added is orderly, or is halted and the run ended with \<open>Fatal\<close>.
\<close>

definition regular :: "env \<Rightarrow> state \<Rightarrow> 'a result \<Rightarrow> ('a \<Rightarrow> state) \<Rightarrow> bool" where
  "regular env st r f =
     (\<exists>tr. trace (final r f) = trace st @ tr \<and>
        (orderly env (trace st) tr \<or> aborted r = Some Fatal \<and> halted env (trace st) tr))"

text \<open>
  The calls of the AWS SDK: the session, the fetch of the tags and the tag creation.
\<close>

fun is_provider_call :: "effect \<Rightarrow> bool" where
  "is_provider_call (Call_NewSession r) = True"
| "is_provider_call (Call_DescribeVolumes r vol) = True"
| "is_provider_call (Call_CreateTags r vol k v) = True"
| "is_provider_call (Call_Get n) = False"
| "is_provider_call (Log lvl msg fs) = False"

text \<open>
  The pairs of the \<open>CreateTags\<close> calls of a trace, in order.
\<close>

fun created :: "effect \<Rightarrow> (string \<times> string) list" where
  "created (Call_CreateTags r vol k v) = [(k, v)]"
| "created (Call_NewSession r) = []"
| "created (Call_DescribeVolumes r vol) = []"
| "created (Call_Get n) = []"
| "created (Log lvl msg fs) = []"

definition applied :: "effect list \<Rightarrow> (string \<times> string) list" where
  "applied tr = concat (map created tr)"

text \<open>
  The pairs that the loop of \<open>addAWSTags\<close> took from the tag list: the key and the
  value of each entry \<open>Processing EBS Volume\<close> of a trace, in order.
\<close>

fun processing :: "effect \<Rightarrow> (string \<times> string) list" where
  "processing (Log lvl msg fs) =
     (if lvl = InfoLevel \<and> msg = ''Processing EBS Volume'' then
        (case (map_of fs ''tagKey'', map_of fs ''tagValue'') of
           (Some k, Some v) \<Rightarrow> [(k, v)]
         | _ \<Rightarrow> [])
      else [])"
| "processing (Call_CreateTags r vol k v) = []"
| "processing (Call_NewSession r) = []"
| "processing (Call_DescribeVolumes r vol) = []"
| "processing (Call_Get n) = []"

definition processed :: "effect list \<Rightarrow> (string \<times> string) list" where
  "processed tr = concat (map processing tr)"

text \<open>
  The reading of a tag list that the specification gives: a token is well formed when it
  holds exactly one \<open>=\<close>, and stands for the pair of what is before and after it.
\<close>

definition wellformed :: "string \<Rightarrow> bool" where
  "wellformed tok = (count_list tok (CHR ''='') = 1)"

definition pair_of :: "string \<Rightarrow> string \<times> string" where
  "pair_of tok =
     (takeWhile (\<lambda>c. c \<noteq> CHR ''='') tok, tl (dropWhile (\<lambda>c. c \<noteq> CHR ''='') tok))"

definition parse_tags :: "string list \<Rightarrow> (string \<times> string) list" where
  "parse_tags toks = map pair_of (filter wellformed toks)"

text \<open>
  A pair is present in a set of remote tags when one tag has its key and its value.
\<close>

definition present :: "Tag list \<Rightarrow> string \<times> string \<Rightarrow> bool" where
  "present R p = (\<exists>t \<in> set R. Key t = Some (fst p) \<and> Value t = Some (snd p))"

section \<open>Examples\<close>

text \<open>
  The inputs at which the theorems below are evaluated: the volume and the claim of the
  examples of the specification, an environment in which every call succeeds and the
  volume carries the tags \<open>R\<close>, the state in which \<open>main\<close> enters its loop, and the
  background context; then the event that adds the claim, four environments in which one
  service answers otherwise (the tag creation fails, the fetch of the tags fails, the
  volume is not found, the volume has no EBS source), and the annotations of a claim of
  another provisioner.
\<close>

definition example_volume :: PersistentVolume where
  "example_volume =
     \<lparr>AWSElasticBlockStore = Some \<lparr>VolumeID = ''aws://eu-west-1b/vol-0123456789abcdef0''\<rparr>\<rparr>"

definition example_env :: "bool \<Rightarrow> Tag list \<Rightarrow> env" where
  "example_env dry R =
     \<lparr>debug = False, dryrun = dry,
      PersistentVolumes_Get = (\<lambda>h n. Inr example_volume),
      NewSession = (\<lambda>h r. None),
      DescribeVolumes = (\<lambda>h r vol. Inr [\<lparr>Tags = R\<rparr>]),
      CreateTags = (\<lambda>h r vol k v. Inr ''{}'')\<rparr>"

definition example_claim :: "(string \<times> string) list \<Rightarrow> PersistentVolumeClaim" where
  "example_claim annotations =
     \<lparr>Namespace = ''default'', Name = ''data'', Annotations = annotations,
      Spec_VolumeName = ''pv-1''\<rparr>"

definition example_annotations :: "(string \<times> string) list" where
  "example_annotations =
     [(''volume.beta.kubernetes.io/storage-provisioner'', ''kubernetes.io/aws-ebs''),
      (''volume.beta.kubernetes.io/additional-resource-tags'', ''env=prod,team=infra'')]"

definition start :: state where
  "start =
     \<lparr>eventsProcessed = 0, tagsAdded = 0, tagsExisting = 0, volumesTagged = 0,
      processingErrors = 0, trace = []\<rparr>"

definition background :: Ctx where
  "background = \<lparr>ns = None, pvcname = None, volname = None\<rparr>"

definition example_event :: "(string \<times> string) list \<Rightarrow> Event" where
  "example_event annotations = \<lparr>Type = Added, Object = Claim (example_claim annotations)\<rparr>"

definition failing_create :: env where
  "failing_create = (example_env False [])\<lparr>CreateTags := (\<lambda>h r vol k v. Inl ''UnauthorizedOperation'')\<rparr>"

definition failing_fetch :: env where
  "failing_fetch = (example_env False [])\<lparr>DescribeVolumes := (\<lambda>h r vol. Inl ''RequestLimitExceeded'')\<rparr>"

definition unbound :: env where
  "unbound = (example_env False [])\<lparr>PersistentVolumes_Get := (\<lambda>h n. Inl ''not found'')\<rparr>"

definition other_volume :: env where
  "other_volume =
     (example_env False [])\<lparr>PersistentVolumes_Get := (\<lambda>h n. Inr \<lparr>AWSElasticBlockStore = None\<rparr>)\<rparr>"

definition other_annotations :: "(string \<times> string) list" where
  "other_annotations =
     [(''volume.beta.kubernetes.io/storage-provisioner'', ''kubernetes.io/gce-pd''),
      (''volume.beta.kubernetes.io/additional-resource-tags'', ''env=prod,team=infra'')]"

section \<open>The tags that a pass leaves on the volume\<close>

text \<open>
  The provider's side of a \<open>CreateTags\<close> call, which is not code of \<open>main.go\<close>: the
  create/overwrite semantics that the specification names. The tag is added to the tags
  of the volume, in the place of the tag of the same key if the volume has one.
\<close>

definition overwrite :: "Tag list \<Rightarrow> string \<times> string \<Rightarrow> Tag list" where
  "overwrite R p =
     filter (\<lambda>t. Key t \<noteq> Some (fst p)) R @ [\<lparr>Key = Some (fst p), Value = Some (snd p)\<rparr>]"

text \<open>
  The answer of \<open>hasTag\<close> as a function of the tags alone; \<open>None\<close> where it panics.
\<close>

fun scan :: "Tag list \<Rightarrow> string \<times> string \<Rightarrow> bool option" where
  "scan [] p = Some False"
| "scan (t # tags) p =
     (case Key t of
        None \<Rightarrow> None
      | Some k \<Rightarrow>
          if k \<noteq> fst p then scan tags p
          else
            (case Value t of
               None \<Rightarrow> None
             | Some v \<Rightarrow> if v = snd p then Some True else scan tags p))"

text \<open>
  Every tag has a key.
\<close>

definition keyed :: "Tag list \<Rightarrow> bool" where
  "keyed R = (\<forall>t \<in> set R. Key t \<noteq> None)"

section \<open>States and runs of the loop over the tokens\<close>

text \<open>
  The states after the three things that the loop of \<open>addAWSTags\<close> does to a
  token besides setting a tag: skipping it as malformed, announcing its pair, and finding
  the pair among the tags of the volume.
\<close>

definition skipped :: "Ctx \<Rightarrow> state \<Rightarrow> state" where
  "skipped ctx st =
     (emit ErrorLevel ''Skipping malformed tag'' (logWithCtx ctx) st)
     \<lparr>processingErrors := processingErrors st + 1\<rparr>"

definition announced :: "Ctx \<Rightarrow> string \<times> string \<Rightarrow> string \<Rightarrow> string \<Rightarrow> state \<Rightarrow> state" where
  "announced ctx p awsVolume awsRegion st =
     emit InfoLevel ''Processing EBS Volume''
       (logWithCtx ctx @
        [(''tagKey'', fst p), (''tagValue'', snd p), (''volId'', awsVolume), (''region'', awsRegion)]) st"

definition existing :: "Ctx \<Rightarrow> string \<Rightarrow> string \<Rightarrow> string \<Rightarrow> string \<Rightarrow> state \<Rightarrow> state" where
  "existing ctx key val awsVolume awsRegion st =
     (emit InfoLevel ''Tag value already exists''
        (logWithCtx ctx @
         [(''tagKey'', key), (''tagValue'', val), (''volId'', awsVolume), (''region'', awsRegion)]) st)
     \<lparr>tagsExisting := tagsExisting st + 1\<rparr>"

text \<open>
  What a run of the loop that returns has done: the pairs it processed are the parsed
  pairs, it called \<open>CreateTags\<close> for those absent from the tags \<open>R\<close> and for
  nothing else, and it moved the counters accordingly.
\<close>

definition delivered ::
  "string \<Rightarrow> string \<Rightarrow> Tag list \<Rightarrow> string list \<Rightarrow> bool \<Rightarrow> state \<Rightarrow> bool \<Rightarrow> state \<Rightarrow> bool"
where
  "delivered reg vol R toks a st a' st' =
     (\<exists>tr. trace st' = trace st @ tr \<and>
        processed tr = parse_tags toks \<and>
        filter is_provider_call tr =
          map (\<lambda>p. Call_CreateTags reg vol (fst p) (snd p))
            (filter (\<lambda>p. \<not> present R p) (parse_tags toks)) \<and>
        processingErrors st' = processingErrors st + length (filter (\<lambda>t. \<not> wellformed t) toks) \<and>
        tagsExisting st' = tagsExisting st + length (filter (present R) (parse_tags toks)) \<and>
        tagsAdded st' = tagsAdded st + length (filter (\<lambda>p. \<not> present R p) (parse_tags toks)) \<and>
        a' = (a \<or> filter (\<lambda>p. \<not> present R p) (parse_tags toks) \<noteq> []) \<and>
        eventsProcessed st' = eventsProcessed st \<and>
        volumesTagged st' = volumesTagged st)"

section \<open>Facts about splitting at one character\<close>

lemma Index_single:
  "Index s [c] = (if c \<in> set s then Some (length (takeWhile (\<lambda>x. x \<noteq> c) s)) else None)"
  by (induction s) auto

lemma takeWhile_first: "c \<notin> set a \<Longrightarrow> takeWhile (\<lambda>x. x \<noteq> c) (a @ c # r) = a"
  by (induction a) auto

lemma dropWhile_first: "c \<notin> set a \<Longrightarrow> dropWhile (\<lambda>x. x \<noteq> c) (a @ c # r) = c # r"
  by (induction a) auto

lemma Split_notin: "c \<notin> set a \<Longrightarrow> Split a [c] = [a]"
  by (subst Split.simps) (simp add: Index_single)

lemma Split_first: "c \<notin> set a \<Longrightarrow> Split (a @ c # r) [c] = a # Split r [c]"
  by (subst Split.simps) (simp add: Index_single takeWhile_first)

lemma length_Split: "length (Split s [c]) = Suc (count_list s c)"
proof (induction s rule: length_induct)
  case (1 s)
  show ?case
  proof (cases "c \<in> set s")
    case False
    then show ?thesis by (simp add: Split_notin)
  next
    case True
    then obtain a r where s: "s = a @ c # r" and a: "c \<notin> set a"
      by (meson split_list_first)
    from 1 s have "length (Split r [c]) = Suc (count_list r c)"
      by simp
    with s a show ?thesis
      by (simp add: Split_first)
  qed
qed

lemma Split_two:
  assumes "count_list tok c = 1"
  shows "Split tok [c] = [takeWhile (\<lambda>x. x \<noteq> c) tok, tl (dropWhile (\<lambda>x. x \<noteq> c) tok)]"
proof -
  from assms have "c \<in> set tok"
    by (metis count_list_0_iff zero_neq_one)
  then obtain a r where s: "tok = a @ c # r" and a: "c \<notin> set a"
    by (meson split_list_first)
  with assms have r: "c \<notin> set r"
    by (simp add: count_list_0_iff)
  from s a r show ?thesis
    by (simp add: Split_first Split_notin takeWhile_first dropWhile_first)
qed

lemma lower_range:
  "\<forall>n \<in> set [97..<123]. (char_of (n::nat) :: char) \<in> set ''abcdefghijklmnopqrstuvwxyz''"
  by code_simp

lemma lower_iff:
  "(97 \<le> byte c \<and> byte c \<le> 122) = (c \<in> set ''abcdefghijklmnopqrstuvwxyz'')"
proof
  assume "97 \<le> byte c \<and> byte c \<le> 122"
  then have "byte c \<in> {97..<123}"
    by auto
  then have "byte c \<in> set [97..<123]"
    by (simp only: set_upt)
  with lower_range have "(char_of (byte c) :: char) \<in> set ''abcdefghijklmnopqrstuvwxyz''"
    by blast
  then show "c \<in> set ''abcdefghijklmnopqrstuvwxyz''"
    by (simp add: byte_def del: list.set)
next
  assume "c \<in> set ''abcdefghijklmnopqrstuvwxyz''"
  then show "97 \<le> byte c \<and> byte c \<le> 122"
    by (auto simp: byte_def)
qed

section \<open>Decomposition of the volume identifier\<close>

lemma Split_volume_url:
  assumes "CHR ''/'' \<notin> set scheme" "CHR ''/'' \<notin> set zone" "CHR ''/'' \<notin> set volume"
  shows "Split (scheme @ ''://'' @ zone @ ''/'' @ volume) ''/'' = [scheme @ '':'', [], zone, volume]"
proof -
  have "Split (scheme @ ''://'' @ zone @ ''/'' @ volume) ''/'' =
        Split ((scheme @ '':'') @ CHR ''/'' # ([] @ CHR ''/'' # (zone @ CHR ''/'' # volume))) ''/''"
    by simp
  also have "\<dots> = (scheme @ '':'') # Split ([] @ CHR ''/'' # (zone @ CHR ''/'' # volume)) ''/''"
    using assms(1) by (intro Split_first) simp
  also have "Split ([] @ CHR ''/'' # (zone @ CHR ''/'' # volume)) ''/'' =
        [] # Split (zone @ CHR ''/'' # volume) ''/''"
    by (intro Split_first) simp
  also have "Split (zone @ CHR ''/'' # volume) ''/'' = zone # Split volume ''/''"
    using assms(2) by (intro Split_first)
  also have "Split volume ''/'' = [volume]"
    using assms(3) by (rule Split_notin)
  finally show ?thesis .
qed

text \<open>
  C7. For every volume identifier of the form \<open>scheme://zone/volume-id\<close>, where neither
  the scheme, nor the zone, nor the volume id holds a slash (so that the identifier has
  four segments), \<open>splitVol\<close> returns the region and the volume id, and the region is
  the zone without its last character if that is a lowercase letter, the zone itself
  otherwise.
\<close>

theorem splitVol_region_volume:
  assumes "CHR ''/'' \<notin> set scheme" and "CHR ''/'' \<notin> set zone" and "CHR ''/'' \<notin> set volume"
  shows "splitVol (scheme @ ''://'' @ zone @ ''/'' @ volume) =
         Inr (if zone \<noteq> [] \<and> last zone \<in> set ''abcdefghijklmnopqrstuvwxyz''
              then butlast zone else zone,
              volume)"
proof -
  have sp: "Split (scheme @ ''://'' @ zone @ ''/'' @ volume) ''/'' = [scheme @ '':'', [], zone, volume]"
    using assms by (rule Split_volume_url)
  show ?thesis
    unfolding splitVol_def sp
    by (simp add: ReplaceAllString_def lower_iff del: list.set)
qed

theorem splitVol_region_volume_witness:
  "CHR ''/'' \<notin> set ''aws'' \<and> CHR ''/'' \<notin> set ''eu-west-1b'' \<and>
   CHR ''/'' \<notin> set ''vol-0123456789abcdef0'' \<and>
   splitVol ''aws://eu-west-1b/vol-0123456789abcdef0'' =
     Inr (''eu-west-1'', ''vol-0123456789abcdef0'')"
  using splitVol_region_volume [of "''aws''" "''eu-west-1b''" "''vol-0123456789abcdef0''"]
  by simp

text \<open>
  C8. \<open>splitVol\<close> does not check the number of segments. The identifier splits into one
  segment more than it has slashes; with fewer than four segments the indexing is out of
  range and \<open>splitVol\<close> panics, and with four segments or more it returns.
\<close>

theorem splitVol_segments:
  "length (Split vol ''/'') = Suc (count_list vol (CHR ''/'')) \<and>
   (length (Split vol ''/'') < 4 \<longrightarrow> splitVol vol = Inl Panic) \<and>
   (4 \<le> length (Split vol ''/'') \<longrightarrow> (\<exists>r. splitVol vol = Inr r))"
  by (simp add: length_Split splitVol_def Let_def)

theorem splitVol_segments_witness:
  "length (Split ''vol-0123456789abcdef0'' ''/'') < 4 \<and>
   splitVol ''vol-0123456789abcdef0'' = Inl Panic \<and>
   4 \<le> length (Split ''aws://eu-west-1b/vol-0123456789abcdef0'' ''/'') \<and>
   (\<exists>r. splitVol ''aws://eu-west-1b/vol-0123456789abcdef0'' = Inr r)"
  using splitVol_segments [of "''vol-0123456789abcdef0''"]
    splitVol_segments [of "''aws://eu-west-1b/vol-0123456789abcdef0''"]
  by simp

section \<open>Facts about the loop over the tokens\<close>

lemma processed_append: "processed (xs @ ys) = processed xs @ processed ys"
  by (simp add: processed_def)

lemma map_of_logWithCtx:
  "k \<notin> {''namespace'', ''volumeClaimName'', ''volumeName''} \<Longrightarrow>
   map_of (logWithCtx ctx @ fs) k = map_of fs k"
  by (auto simp: logWithCtx_def map_add_def split: option.splits)

lemma hasTag_Inl: "hasTag ctx R k v vol reg st = Inl (a, st') \<Longrightarrow> a = Panic \<and> st' = st"
  by (induction R) (auto simp: Let_def split: option.splits if_splits)

lemma hasTag_Inr:
  "hasTag ctx R k v vol reg st = Inr (b, st') \<Longrightarrow>
   b = present R (k, v) \<and> st' = (if b then existing ctx k v vol reg st else st)"
  by (induction R) (auto simp: present_def existing_def emit_def Let_def split: option.splits if_splits)

lemma Split_eq_wellformed: "(length (Split tok ''='') = 2) = wellformed tok"
  by (simp add: length_Split wellformed_def)

lemma Split_wellformed: "wellformed tok \<Longrightarrow> Split tok ''='' = [fst (pair_of tok), snd (pair_of tok)]"
  by (simp add: wellformed_def pair_of_def Split_two)

lemma range_malformed:
  "\<not> wellformed tok \<Longrightarrow>
   addAWSTags_range env ctx reg vols vol (tok # toks) a st =
   addAWSTags_range env ctx reg vols vol toks a (skipped ctx st)"
  by (simp add: Split_eq_wellformed skipped_def emit_def Let_def)

lemma range_wellformed:
  "wellformed tok \<Longrightarrow>
   addAWSTags_range env ctx reg vols vol (tok # toks) a st =
   (case vols of
      [] \<Rightarrow> Inl (Panic, announced ctx (pair_of tok) vol reg st)
    | v0 # _ \<Rightarrow>
        (case hasTag ctx (Tags v0) (fst (pair_of tok)) (snd (pair_of tok)) vol reg
                (announced ctx (pair_of tok) vol reg st) of
           Inl x \<Rightarrow> Inl x
         | Inr (True, st2) \<Rightarrow> addAWSTags_range env ctx reg vols vol toks a st2
         | Inr (False, st2) \<Rightarrow>
             (case setTag env ctx reg (fst (pair_of tok)) (snd (pair_of tok)) vol st2 of
                Inl x \<Rightarrow> Inl x
              | Inr (_, st3) \<Rightarrow> addAWSTags_range env ctx reg vols vol toks True st3)))"
  using Split_eq_wellformed [of tok]
  by (simp add: Split_wellformed announced_def Let_def del: Split_eq_wellformed
        split: list.split sum.split bool.split prod.split)

lemma parse_tags_append: "parse_tags (xs @ ys) = parse_tags xs @ parse_tags ys"
  by (simp add: parse_tags_def)

lemma delivered_Nil: "delivered reg vol R [] a st a st"
  by (simp add: delivered_def parse_tags_def processed_def)

lemma delivered_trans:
  assumes "delivered reg vol R xs a st a1 st1" and "delivered reg vol R ys a1 st1 a2 st2"
  shows "delivered reg vol R (xs @ ys) a st a2 st2"
proof -
  from assms(1) obtain tr1 where 1: "trace st1 = trace st @ tr1"
    "processed tr1 = parse_tags xs"
    "filter is_provider_call tr1 =
       map (\<lambda>p. Call_CreateTags reg vol (fst p) (snd p)) (filter (\<lambda>p. \<not> present R p) (parse_tags xs))"
    "processingErrors st1 = processingErrors st + length (filter (\<lambda>t. \<not> wellformed t) xs)"
    "tagsExisting st1 = tagsExisting st + length (filter (present R) (parse_tags xs))"
    "tagsAdded st1 = tagsAdded st + length (filter (\<lambda>p. \<not> present R p) (parse_tags xs))"
    "a1 = (a \<or> filter (\<lambda>p. \<not> present R p) (parse_tags xs) \<noteq> [])"
    "eventsProcessed st1 = eventsProcessed st" "volumesTagged st1 = volumesTagged st"
    unfolding delivered_def by blast
  from assms(2) obtain tr2 where 2: "trace st2 = trace st1 @ tr2"
    "processed tr2 = parse_tags ys"
    "filter is_provider_call tr2 =
       map (\<lambda>p. Call_CreateTags reg vol (fst p) (snd p)) (filter (\<lambda>p. \<not> present R p) (parse_tags ys))"
    "processingErrors st2 = processingErrors st1 + length (filter (\<lambda>t. \<not> wellformed t) ys)"
    "tagsExisting st2 = tagsExisting st1 + length (filter (present R) (parse_tags ys))"
    "tagsAdded st2 = tagsAdded st1 + length (filter (\<lambda>p. \<not> present R p) (parse_tags ys))"
    "a2 = (a1 \<or> filter (\<lambda>p. \<not> present R p) (parse_tags ys) \<noteq> [])"
    "eventsProcessed st2 = eventsProcessed st1" "volumesTagged st2 = volumesTagged st1"
    unfolding delivered_def by blast
  have "trace st2 = trace st @ (tr1 @ tr2)"
    using 1(1) 2(1) by simp
  moreover have "processed (tr1 @ tr2) = parse_tags (xs @ ys)"
    using 1(2) 2(2) by (simp add: processed_append parse_tags_append)
  moreover have "filter is_provider_call (tr1 @ tr2) =
       map (\<lambda>p. Call_CreateTags reg vol (fst p) (snd p))
         (filter (\<lambda>p. \<not> present R p) (parse_tags (xs @ ys)))"
    using 1(3) 2(3) by (simp add: parse_tags_append)
  moreover have "processingErrors st2 =
      processingErrors st + length (filter (\<lambda>t. \<not> wellformed t) (xs @ ys))"
    using 1(4) 2(4) by simp
  moreover have "tagsExisting st2 =
      tagsExisting st + length (filter (present R) (parse_tags (xs @ ys)))"
    using 1(5) 2(5) by (simp add: parse_tags_append)
  moreover have "tagsAdded st2 =
      tagsAdded st + length (filter (\<lambda>p. \<not> present R p) (parse_tags (xs @ ys)))"
    using 1(6) 2(6) by (simp add: parse_tags_append)
  moreover have "a2 = (a \<or> filter (\<lambda>p. \<not> present R p) (parse_tags (xs @ ys)) \<noteq> [])"
    using 1(7) 2(7) by (simp add: parse_tags_append)
  moreover have "eventsProcessed st2 = eventsProcessed st" "volumesTagged st2 = volumesTagged st"
    using 1(8,9) 2(8,9) by simp_all
  ultimately show ?thesis
    unfolding delivered_def by blast
qed

lemma processing_announced:
  "processing (Log InfoLevel ''Processing EBS Volume''
     (logWithCtx ctx @ [(''tagKey'', k), (''tagValue'', v), (''volId'', vol), (''region'', reg)])) =
   [(k, v)]"
  using map_of_logWithCtx [of "''tagKey''" ctx] map_of_logWithCtx [of "''tagValue''" ctx]
  by (simp del: map_of_append)

lemma processing_level: "lvl \<noteq> InfoLevel \<Longrightarrow> processing (Log lvl msg fs) = []"
  by simp

lemma processing_existing: "processing (Log InfoLevel ''Tag value already exists'' fs) = []"
  by simp

declare processing.simps(1) [simp del]

declare addAWSTags_range.simps(2) [simp del]

lemma step_malformed:
  "\<not> wellformed tok \<Longrightarrow> delivered reg vol R [tok] a st a (skipped ctx st)"
  by (simp add: delivered_def skipped_def emit_def parse_tags_def processed_def processing_level)

lemma step_present:
  "wellformed tok \<Longrightarrow> present R (pair_of tok) \<Longrightarrow>
   delivered reg vol R [tok] a st a
     (existing ctx (fst (pair_of tok)) (snd (pair_of tok)) vol reg (announced ctx (pair_of tok) vol reg st))"
  by (simp add: delivered_def existing_def announced_def emit_def parse_tags_def processed_def
        processing_announced processing_existing)

lemma setTag_Inr:
  "setTag env ctx svc k v vol st = Inr (x, st') \<Longrightarrow>
   (\<exists>ret. CreateTags env (trace st) svc vol k v = Inr ret) \<and>
   (\<exists>tr. trace st' = trace st @ Call_CreateTags svc vol k v # tr \<and>
      filter is_provider_call tr = [] \<and> processed tr = []) \<and>
   tagsAdded st' = tagsAdded st + 1 \<and> tagsExisting st' = tagsExisting st \<and>
   processingErrors st' = processingErrors st \<and> eventsProcessed st' = eventsProcessed st \<and>
   volumesTagged st' = volumesTagged st"
  by (auto simp: setTag_def Let_def emit_def call_def processed_def processing_level
        split: sum.splits)

lemma step_absent:
  assumes "wellformed tok" and "\<not> present R (pair_of tok)"
    and "setTag env ctx reg (fst (pair_of tok)) (snd (pair_of tok)) vol
           (announced ctx (pair_of tok) vol reg st) = Inr (x, st3)"
  shows "delivered reg vol R [tok] a st True st3"
proof -
  from setTag_Inr [OF assms(3)] obtain tr where
    tr: "trace st3 = trace (announced ctx (pair_of tok) vol reg st) @
           Call_CreateTags reg vol (fst (pair_of tok)) (snd (pair_of tok)) # tr"
      "filter is_provider_call tr = []" "processed tr = []"
    and cnt: "tagsAdded st3 = tagsAdded (announced ctx (pair_of tok) vol reg st) + 1"
      "tagsExisting st3 = tagsExisting (announced ctx (pair_of tok) vol reg st)"
      "processingErrors st3 = processingErrors (announced ctx (pair_of tok) vol reg st)"
      "eventsProcessed st3 = eventsProcessed (announced ctx (pair_of tok) vol reg st)"
      "volumesTagged st3 = volumesTagged (announced ctx (pair_of tok) vol reg st)"
    by blast
  let ?tr = "Log InfoLevel ''Processing EBS Volume''
       (logWithCtx ctx @ [(''tagKey'', fst (pair_of tok)), (''tagValue'', snd (pair_of tok)),
          (''volId'', vol), (''region'', reg)]) #
     Call_CreateTags reg vol (fst (pair_of tok)) (snd (pair_of tok)) # tr"
  have "trace st3 = trace st @ ?tr"
    using tr(1) by (simp add: announced_def emit_def)
  moreover have "processed ?tr = parse_tags [tok]"
    using assms(1) tr(3) processing_announced [of ctx "fst (pair_of tok)" "snd (pair_of tok)" vol reg]
    by (simp add: processed_def parse_tags_def)
  moreover have "filter is_provider_call ?tr =
      map (\<lambda>p. Call_CreateTags reg vol (fst p) (snd p)) (filter (\<lambda>p. \<not> present R p) (parse_tags [tok]))"
    using assms(1,2) tr(2) by (simp add: parse_tags_def)
  ultimately show ?thesis
    using assms(1,2) cnt unfolding delivered_def
    by (intro exI [of _ ?tr]) (simp add: parse_tags_def announced_def emit_def)
qed

lemma range_delivered_any:
  "addAWSTags_range env ctx reg vols vol toks a st = Inr (a', st') \<Longrightarrow>
   delivered reg vol (case vols of [] \<Rightarrow> [] | v0 # _ \<Rightarrow> Tags v0) toks a st a' st'"
proof (induction toks arbitrary: a st)
  case Nil
  then show ?case by (simp add: delivered_Nil)
next
  case (Cons tok toks)
  let ?R = "case vols of [] \<Rightarrow> [] | v0 # _ \<Rightarrow> Tags v0"
  show ?case
  proof (cases "wellformed tok")
    case False
    with Cons.prems have "addAWSTags_range env ctx reg vols vol toks a (skipped ctx st) = Inr (a', st')"
      by (simp add: range_malformed)
    then have "delivered reg vol ?R toks a (skipped ctx st) a' st'"
      by (rule Cons.IH)
    with step_malformed [OF False] have "delivered reg vol ?R ([tok] @ toks) a st a' st'"
      by (rule delivered_trans)
    then show ?thesis by simp
  next
    case True
    let ?p = "pair_of tok"
    let ?st1 = "announced ctx ?p vol reg st"
    from Cons.prems True obtain v0 vs where vols: "vols = v0 # vs"
      by (cases vols) (simp_all add: range_wellformed)
    then have R: "?R = Tags v0" by simp
    from Cons.prems True vols obtain b st2 where
      h: "hasTag ctx (Tags v0) (fst ?p) (snd ?p) vol reg ?st1 = Inr (b, st2)"
      by (auto simp: range_wellformed split: sum.splits)
    from hasTag_Inr [OF h] have b: "b = present (Tags v0) ?p"
      and st2: "st2 = (if b then existing ctx (fst ?p) (snd ?p) vol reg ?st1 else ?st1)"
      by simp_all
    show ?thesis
    proof (cases b)
      case True
      with Cons.prems \<open>wellformed tok\<close> h vols
      have "addAWSTags_range env ctx reg vols vol toks a st2 = Inr (a', st')"
        by (simp add: range_wellformed)
      then have "delivered reg vol ?R toks a st2 a' st'"
        by (rule Cons.IH)
      moreover have "delivered reg vol ?R [tok] a st a st2"
        using step_present [OF \<open>wellformed tok\<close>, of "Tags v0"] True b st2 R by simp
      ultimately have "delivered reg vol ?R ([tok] @ toks) a st a' st'"
        by (rule delivered_trans [rotated])
      then show ?thesis by simp
    next
      case False
      with st2 have st2': "st2 = ?st1" by simp
      from Cons.prems \<open>wellformed tok\<close> h False vols obtain x st3 where
        s: "setTag env ctx reg (fst ?p) (snd ?p) vol st2 = Inr (x, st3)"
        and r: "addAWSTags_range env ctx reg vols vol toks True st3 = Inr (a', st')"
        by (auto simp: range_wellformed split: sum.splits)
      from r have "delivered reg vol ?R toks True st3 a' st'"
        by (rule Cons.IH)
      moreover have "delivered reg vol ?R [tok] a st True st3"
        using step_absent [OF \<open>wellformed tok\<close> _ s [unfolded st2']] False b R by simp
      ultimately have "delivered reg vol ?R ([tok] @ toks) a st a' st'"
        by (rule delivered_trans [rotated])
      then show ?thesis by simp
    qed
  qed
qed

lemma range_delivered:
  "addAWSTags_range env ctx reg (v0 # vs) vol toks a st = Inr (a', st') \<Longrightarrow>
   delivered reg vol (Tags v0) toks a st a' st'"
  using range_delivered_any [of env ctx reg "v0 # vs" vol toks a st a' st'] by simp

text \<open>
  A run of \<open>addAWSTags\<close> that returns after a successful fetch is a run of the loop from
  the state after the two calls, followed by the count of the volume.
\<close>

lemma addAWSTags_returns:
  assumes "splitVol awsVolumeID = Inr (reg, vol)"
    and "DescribeVolumes env (trace st @ [Call_NewSession reg]) reg vol = Inr vols"
    and "addAWSTags env ctx s awsVolumeID sep st = Inr st'"
  shows "\<exists>a' st2.
           addAWSTags_range env ctx reg vols vol (Split s sep) False
             (call (Call_DescribeVolumes reg vol) (call (Call_NewSession reg) st)) = Inr (a', st2) \<and>
           st' = (if a' then st2\<lparr>volumesTagged := volumesTagged st2 + 1\<rparr> else st2)"
proof -
  let ?st0 = "call (Call_DescribeVolumes reg vol) (call (Call_NewSession reg) st)"
  have d: "DescribeVolumes env (trace (call (Call_NewSession reg) st)) reg vol = Inr vols"
    using assms(2) by (simp add: call_def)
  show ?thesis
  proof (cases "addAWSTags_range env ctx reg vols vol (Split s sep) False ?st0")
    case (Inl x)
    with assms(1,3) d show ?thesis
      by (simp add: addAWSTags_def Let_def split: option.splits)
  next
    case (Inr y)
    obtain a' st2 where y: "y = (a', st2)" by (cases y)
    with Inr assms(1,3) d show ?thesis
      by (auto simp: addAWSTags_def Let_def split: option.splits)
  qed
qed

lemma addAWSTags_delivered:
  assumes "splitVol awsVolumeID = Inr (reg, vol)"
    and "DescribeVolumes env (trace st @ [Call_NewSession reg]) reg vol = Inr vols"
    and "addAWSTags env ctx s awsVolumeID sep st = Inr st'"
  shows "\<exists>tr. since st st' = Call_NewSession reg # Call_DescribeVolumes reg vol # tr \<and>
           processed tr = parse_tags (Split s sep) \<and>
           filter is_provider_call tr =
             map (\<lambda>p. Call_CreateTags reg vol (fst p) (snd p))
               (filter (\<lambda>p. \<not> present (case vols of [] \<Rightarrow> [] | v0 # _ \<Rightarrow> Tags v0) p)
                  (parse_tags (Split s sep))) \<and>
           processingErrors st' =
             processingErrors st + length (filter (\<lambda>t. \<not> wellformed t) (Split s sep)) \<and>
           tagsExisting st' =
             tagsExisting st +
             length (filter (present (case vols of [] \<Rightarrow> [] | v0 # _ \<Rightarrow> Tags v0))
                       (parse_tags (Split s sep)))"
proof -
  let ?st0 = "call (Call_DescribeVolumes reg vol) (call (Call_NewSession reg) st)"
  from addAWSTags_returns [OF assms] obtain a' st2 where
    r: "addAWSTags_range env ctx reg vols vol (Split s sep) False ?st0 = Inr (a', st2)"
    and st': "st' = (if a' then st2\<lparr>volumesTagged := volumesTagged st2 + 1\<rparr> else st2)"
    by blast
  from range_delivered_any [OF r] obtain tr where
    tr: "trace st2 = trace ?st0 @ tr" "processed tr = parse_tags (Split s sep)"
      "filter is_provider_call tr =
         map (\<lambda>p. Call_CreateTags reg vol (fst p) (snd p))
           (filter (\<lambda>p. \<not> present (case vols of [] \<Rightarrow> [] | v0 # _ \<Rightarrow> Tags v0) p)
              (parse_tags (Split s sep)))"
      "processingErrors st2 =
         processingErrors ?st0 + length (filter (\<lambda>t. \<not> wellformed t) (Split s sep))"
      "tagsExisting st2 =
         tagsExisting ?st0 +
         length (filter (present (case vols of [] \<Rightarrow> [] | v0 # _ \<Rightarrow> Tags v0))
                   (parse_tags (Split s sep)))"
    unfolding delivered_def by blast
  have "since st st' = Call_NewSession reg # Call_DescribeVolumes reg vol # tr"
    using tr(1) st' by (simp add: since_def call_def)
  moreover have "processingErrors st' =
      processingErrors st + length (filter (\<lambda>t. \<not> wellformed t) (Split s sep))"
    using tr(4) st' by (simp add: call_def)
  moreover have "tagsExisting st' =
      tagsExisting st +
      length (filter (present (case vols of [] \<Rightarrow> [] | v0 # _ \<Rightarrow> Tags v0))
                (parse_tags (Split s sep)))"
    using tr(5) st' by (simp add: call_def)
  ultimately show ?thesis
    using tr(2,3) by blast
qed

lemma applied_provider_calls: "applied (filter is_provider_call tr) = applied tr"
proof (induction tr)
  case Nil
  then show ?case by simp
next
  case (Cons c tr)
  then show ?case by (cases c) (simp_all add: applied_def)
qed

lemma applied_CreateTags:
  "applied (map (\<lambda>p. Call_CreateTags reg vol (fst p) (snd p)) ps) = ps"
  by (induction ps) (simp_all add: applied_def)

lemma range_all_malformed:
  "parse_tags toks = [] \<Longrightarrow>
   \<exists>st1. addAWSTags_range env ctx reg vols vol toks a st0 = Inr (a, st1)"
proof (induction toks arbitrary: st0)
  case Nil
  then show ?case by simp
next
  case (Cons tok toks)
  from Cons.prems have "\<not> wellformed tok" and "parse_tags toks = []"
    by (auto simp: parse_tags_def split: if_splits)
  with Cons.IH [of "skipped ctx st0"] show ?case
    by (simp add: range_malformed)
qed

lemma hasTag_scan:
  "hasTag ctx R k v vol reg st =
   (case scan R (k, v) of
      None \<Rightarrow> Inl (Panic, st)
    | Some b \<Rightarrow> Inr (b, if b then existing ctx k v vol reg st else st))"
  by (induction R) (auto simp: existing_def emit_def Let_def split: option.splits)

lemma scan_present: "scan R p = Some b \<Longrightarrow> b = present R p"
  by (induction R) (auto simp: present_def split: option.splits if_splits)

lemma scan_total:
  "\<forall>t \<in> set R. Key t \<noteq> None \<and> Value t \<noteq> None \<Longrightarrow> \<exists>b. scan R p = Some b"
  by (induction R) (auto split: option.splits)

lemma setTag_returns:
  "CreateTags env (trace st) svc vol k v = Inr ret \<Longrightarrow>
   \<exists>st'. setTag env ctx svc k v vol st = Inr (True, st')"
  by (simp add: setTag_def Let_def)

lemma range_returns:
  assumes "\<forall>t \<in> set (Tags v0). Key t \<noteq> None \<and> Value t \<noteq> None"
    and "\<forall>h k v. \<exists>ret. CreateTags env h reg vol k v = Inr ret"
  shows "\<exists>a' st'. addAWSTags_range env ctx reg (v0 # vs) vol toks a st = Inr (a', st')"
proof (induction toks arbitrary: a st)
  case Nil
  show ?case by simp
next
  case (Cons tok toks)
  show ?case
  proof (cases "wellformed tok")
    case False
    with Cons.IH [of a "skipped ctx st"] show ?thesis
      by (simp add: range_malformed)
  next
    case True
    let ?p = "pair_of tok"
    let ?st1 = "announced ctx ?p vol reg st"
    from scan_total [OF assms(1)] obtain b where b: "scan (Tags v0) ?p = Some b"
      by blast
    show ?thesis
    proof (cases b)
      case True
      with \<open>wellformed tok\<close> b Cons.IH [of a "existing ctx (fst ?p) (snd ?p) vol reg ?st1"]
      show ?thesis
        by (simp add: range_wellformed hasTag_scan)
    next
      case False
      from assms(2) obtain ret where "CreateTags env (trace ?st1) reg vol (fst ?p) (snd ?p) = Inr ret"
        by blast
      from setTag_returns [OF this] obtain st3 where
        "setTag env ctx reg (fst ?p) (snd ?p) vol ?st1 = Inr (True, st3)"
        by blast
      with \<open>wellformed tok\<close> b False Cons.IH [of True st3] show ?thesis
        by (simp add: range_wellformed hasTag_scan)
    qed
  qed
qed

lemma addAWSTags_returns_when:
  assumes "splitVol awsVolumeID = Inr (reg, vol)"
    and "NewSession env (trace st) reg = None"
    and "DescribeVolumes env (trace st @ [Call_NewSession reg]) reg vol = Inr (v0 # vs)"
    and "\<forall>t \<in> set (Tags v0). Key t \<noteq> None \<and> Value t \<noteq> None"
    and "\<forall>h k v. \<exists>ret. CreateTags env h reg vol k v = Inr ret"
  shows "\<exists>st'. addAWSTags env ctx s awsVolumeID sep st = Inr st'"
proof -
  let ?st0 = "call (Call_DescribeVolumes reg vol) (call (Call_NewSession reg) st)"
  from range_returns [OF assms(4,5), of ctx vs "Split s sep" False ?st0] obtain a' st2 where
    run: "addAWSTags_range env ctx reg (v0 # vs) vol (Split s sep) False ?st0 = Inr (a', st2)"
    by blast
  have d: "DescribeVolumes env (trace (call (Call_NewSession reg) st)) reg vol = Inr (v0 # vs)"
    using assms(3) by (simp add: call_def)
  show ?thesis
    using assms(1,2) d run by (simp add: addAWSTags_def Let_def)
qed

section \<open>The tag list and the remote tags\<close>

text \<open>
  C1. For every tag list \<open>s\<close> and separator \<open>sep\<close>: when \<open>addAWSTags\<close> has fetched the
  volume and returns, the pairs it processed are exactly the tokens of
  \<open>Split s sep\<close> with exactly one \<open>=\<close>, each as the pair of what stands before and
  after it, in order, and the error counter has grown by the number of the other tokens
  (those with no \<open>=\<close> or with two or more, the empty token among them). A malformed
  token does not end the batch: the loop goes on with the remaining tokens, with one more
  error counted; and tokens that are all malformed never make the loop abort.
\<close>

theorem tag_list_parsing:
  assumes "splitVol awsVolumeID = Inr (reg, vol)"
    and "DescribeVolumes env (trace st @ [Call_NewSession reg]) reg vol = Inr vols"
    and "addAWSTags env ctx s awsVolumeID sep st = Inr st'"
  shows "processed (since st st') = parse_tags (Split s sep) \<and>
         processingErrors st' =
           processingErrors st + length (filter (\<lambda>tok. \<not> wellformed tok) (Split s sep)) \<and>
         (\<forall>tok toks a st0. \<not> wellformed tok \<longrightarrow>
            addAWSTags_range env ctx reg vols vol (tok # toks) a st0 =
            addAWSTags_range env ctx reg vols vol toks a
              ((emit ErrorLevel ''Skipping malformed tag'' (logWithCtx ctx) st0)
                 \<lparr>processingErrors := processingErrors st0 + 1\<rparr>)) \<and>
         (\<forall>toks a st0. parse_tags toks = [] \<longrightarrow>
            (\<exists>st1. addAWSTags_range env ctx reg vols vol toks a st0 = Inr (a, st1)))"
proof -
  from addAWSTags_delivered [OF assms] obtain tr where
    tr: "since st st' = Call_NewSession reg # Call_DescribeVolumes reg vol # tr"
      "processed tr = parse_tags (Split s sep)"
    and errors: "processingErrors st' =
      processingErrors st + length (filter (\<lambda>t. \<not> wellformed t) (Split s sep))"
    by blast
  from tr have "processed (since st st') = parse_tags (Split s sep)"
    by (simp add: processed_def)
  with errors show ?thesis
    by (simp add: range_malformed skipped_def range_all_malformed)
qed

theorem tag_list_parsing_witness:
  "splitVol ''aws://eu-west-1b/vol-0123456789abcdef0'' =
     Inr (''eu-west-1'', ''vol-0123456789abcdef0'') \<and>
   DescribeVolumes (example_env False []) (trace start @ [Call_NewSession ''eu-west-1''])
     ''eu-west-1'' ''vol-0123456789abcdef0'' = Inr [\<lparr>Tags = []\<rparr>] \<and>
   (\<exists>st'. addAWSTags (example_env False []) background ''env=prod,bad,,a=b=c,team=infra''
            ''aws://eu-west-1b/vol-0123456789abcdef0'' '','' start = Inr st' \<and>
          processed (since start st') = [(''env'', ''prod''), (''team'', ''infra'')] \<and>
          processingErrors st' = 3)"
proof -
  let ?r = "addAWSTags (example_env False []) background ''env=prod,bad,,a=b=c,team=infra''
              ''aws://eu-west-1b/vol-0123456789abcdef0'' '','' start"
  have 1: "splitVol ''aws://eu-west-1b/vol-0123456789abcdef0'' =
      Inr (''eu-west-1'', ''vol-0123456789abcdef0'')"
    by code_simp
  have 2: "DescribeVolumes (example_env False []) (trace start @ [Call_NewSession ''eu-west-1''])
      ''eu-west-1'' ''vol-0123456789abcdef0'' = Inr [\<lparr>Tags = []\<rparr>]"
    by (simp add: example_env_def)
  have 3: "?r = Inr (final ?r (\<lambda>x. x))"
    by code_simp
  have 4: "parse_tags (Split ''env=prod,bad,,a=b=c,team=infra'' '','') =
      [(''env'', ''prod''), (''team'', ''infra'')]"
    by code_simp
  have 5: "length (filter (\<lambda>tok. \<not> wellformed tok) (Split ''env=prod,bad,,a=b=c,team=infra'' '','')) = 3"
    by code_simp
  have 6: "processingErrors start = 0"
    by (simp add: start_def)
  from tag_list_parsing [OF 1 2 3]
  have "processed (since start (final ?r (\<lambda>x. x))) = [(''env'', ''prod''), (''team'', ''infra'')]"
    and "processingErrors (final ?r (\<lambda>x. x)) = 3"
    by (simp_all only: 4 5 6)
  with 1 2 3 show ?thesis
    by blast
qed

text \<open>
  C2. For every set of remote tags \<open>R\<close> that the fetch returns and every tag list:
  \<open>hasTag\<close> counts a pair as present exactly when some tag of \<open>R\<close> has its key and its
  value (a tag with the key and another value does not make it present); a pass of
  \<open>addAWSTags\<close> that returns has called \<open>CreateTags\<close> for exactly the parsed pairs that
  are not present, in order, and has moved the counter of existing tags by the number of
  parsed pairs that are present; and the pass does return when the session opens, every
  tag of \<open>R\<close> has a key and a value, and no tag creation fails.
\<close>

theorem remote_diff:
  assumes "splitVol awsVolumeID = Inr (reg, vol)"
    and "DescribeVolumes env (trace st @ [Call_NewSession reg]) reg vol = Inr (v0 # vs)"
  shows "(\<forall>k v st1 b st2. hasTag ctx (Tags v0) k v vol reg st1 = Inr (b, st2) \<longrightarrow>
            b = (\<exists>t \<in> set (Tags v0). Key t = Some k \<and> Value t = Some v)) \<and>
         (\<forall>st'. addAWSTags env ctx s awsVolumeID sep st = Inr st' \<longrightarrow>
            applied (since st st') =
              filter (\<lambda>p. \<not> present (Tags v0) p) (parse_tags (Split s sep)) \<and>
            tagsExisting st' =
              tagsExisting st + length (filter (present (Tags v0)) (parse_tags (Split s sep)))) \<and>
         (NewSession env (trace st) reg = None \<and>
          (\<forall>t \<in> set (Tags v0). Key t \<noteq> None \<and> Value t \<noteq> None) \<and>
          (\<forall>h k v. \<exists>ret. CreateTags env h reg vol k v = Inr ret) \<longrightarrow>
            (\<exists>st'. addAWSTags env ctx s awsVolumeID sep st = Inr st'))"
proof (intro conjI allI impI)
  fix k v st1 b st2
  assume "hasTag ctx (Tags v0) k v vol reg st1 = Inr (b, st2)"
  from hasTag_Inr [OF this] show "b = (\<exists>t \<in> set (Tags v0). Key t = Some k \<and> Value t = Some v)"
    by (simp add: present_def)
next
  fix st'
  assume run: "addAWSTags env ctx s awsVolumeID sep st = Inr st'"
  from addAWSTags_delivered [OF assms run] obtain tr where
    tr: "since st st' = Call_NewSession reg # Call_DescribeVolumes reg vol # tr"
      "filter is_provider_call tr =
         map (\<lambda>p. Call_CreateTags reg vol (fst p) (snd p))
           (filter (\<lambda>p. \<not> present (Tags v0) p) (parse_tags (Split s sep)))"
    and existing: "tagsExisting st' =
      tagsExisting st + length (filter (present (Tags v0)) (parse_tags (Split s sep)))"
    by auto
  have "applied (since st st') = applied tr"
    using tr(1) by (simp add: applied_def)
  also have "\<dots> = applied (filter is_provider_call tr)"
    by (simp add: applied_provider_calls)
  also have "\<dots> = filter (\<lambda>p. \<not> present (Tags v0) p) (parse_tags (Split s sep))"
    by (simp only: tr(2) applied_CreateTags)
  finally show "applied (since st st') =
      filter (\<lambda>p. \<not> present (Tags v0) p) (parse_tags (Split s sep))" .
  from existing show "tagsExisting st' =
      tagsExisting st + length (filter (present (Tags v0)) (parse_tags (Split s sep)))" .
next
  assume "NewSession env (trace st) reg = None \<and>
      (\<forall>t \<in> set (Tags v0). Key t \<noteq> None \<and> Value t \<noteq> None) \<and>
      (\<forall>h k v. \<exists>ret. CreateTags env h reg vol k v = Inr ret)"
  then have "NewSession env (trace st) reg = None"
    and "\<forall>t \<in> set (Tags v0). Key t \<noteq> None \<and> Value t \<noteq> None"
    and "\<forall>h k v. \<exists>ret. CreateTags env h reg vol k v = Inr ret"
    by blast+
  with assms show "\<exists>st'. addAWSTags env ctx s awsVolumeID sep st = Inr st'"
    by (intro addAWSTags_returns_when [of awsVolumeID reg vol env st v0 vs]) simp_all
qed

theorem remote_diff_witness:
  "splitVol ''aws://eu-west-1b/vol-0123456789abcdef0'' =
     Inr (''eu-west-1'', ''vol-0123456789abcdef0'') \<and>
   DescribeVolumes (example_env False [\<lparr>Key = Some ''env'', Value = Some ''prod''\<rparr>])
     (trace start @ [Call_NewSession ''eu-west-1''])
     ''eu-west-1'' ''vol-0123456789abcdef0'' =
     Inr [\<lparr>Tags = [\<lparr>Key = Some ''env'', Value = Some ''prod''\<rparr>]\<rparr>] \<and>
   NewSession (example_env False [\<lparr>Key = Some ''env'', Value = Some ''prod''\<rparr>])
     (trace start) ''eu-west-1'' = None \<and>
   (\<exists>st'. addAWSTags (example_env False [\<lparr>Key = Some ''env'', Value = Some ''prod''\<rparr>])
            background ''env=prod,team=infra''
            ''aws://eu-west-1b/vol-0123456789abcdef0'' '','' start = Inr st' \<and>
          applied (since start st') = [(''team'', ''infra'')] \<and>
          tagsExisting st' = 1)"
proof -
  let ?R = "[\<lparr>Key = Some ''env'', Value = Some ''prod''\<rparr>]"
  let ?env = "example_env False ?R"
  have 1: "splitVol ''aws://eu-west-1b/vol-0123456789abcdef0'' =
      Inr (''eu-west-1'', ''vol-0123456789abcdef0'')"
    by code_simp
  have 2: "DescribeVolumes ?env (trace start @ [Call_NewSession ''eu-west-1''])
      ''eu-west-1'' ''vol-0123456789abcdef0'' = Inr (\<lparr>Tags = ?R\<rparr> # [])"
    by (simp add: example_env_def)
  have 3: "NewSession ?env (trace start) ''eu-west-1'' = None"
    by (simp add: example_env_def)
  have 4: "\<forall>t \<in> set (Tags \<lparr>Tags = ?R\<rparr>). Key t \<noteq> None \<and> Value t \<noteq> None"
    by simp
  have 5: "\<forall>h k v. \<exists>ret. CreateTags ?env h ''eu-west-1'' ''vol-0123456789abcdef0'' k v = Inr ret"
    by (simp add: example_env_def)
  have 6: "filter (\<lambda>p. \<not> present (Tags \<lparr>Tags = ?R\<rparr>) p) (parse_tags (Split ''env=prod,team=infra'' '','')) =
      [(''team'', ''infra'')]"
    by code_simp
  have 7: "length (filter (present (Tags \<lparr>Tags = ?R\<rparr>)) (parse_tags (Split ''env=prod,team=infra'' '',''))) = 1"
    by code_simp
  have 8: "tagsExisting start = 0"
    by (simp add: start_def)
  note t = remote_diff [OF 1 2, of background "''env=prod,team=infra''" "'',''"]
  from t 3 4 5 obtain st' where
    run: "addAWSTags ?env background ''env=prod,team=infra''
            ''aws://eu-west-1b/vol-0123456789abcdef0'' '','' start = Inr st'"
    by blast
  with t have "applied (since start st') =
      filter (\<lambda>p. \<not> present (Tags \<lparr>Tags = ?R\<rparr>) p) (parse_tags (Split ''env=prod,team=infra'' '','')) \<and>
    tagsExisting st' =
      tagsExisting start +
      length (filter (present (Tags \<lparr>Tags = ?R\<rparr>)) (parse_tags (Split ''env=prod,team=infra'' '','')))"
    by blast
  then have "applied (since start st') = [(''team'', ''infra'')]" and "tagsExisting st' = 1"
    by (simp_all only: 6 7 8)
  with 1 2 3 run show ?thesis
    by blast
qed

section \<open>Facts about whole runs\<close>

lemma orderly_append:
  "orderly env h (a @ b) = (orderly env h a \<and> orderly env (h @ a) b)"
  by (induction a arbitrary: h) auto

lemma halted_prepend:
  assumes "orderly env h a" and "halted env (h @ a) b"
  shows "halted env h (a @ b)"
proof -
  from assms(2) obtain pre r vol k v fs where
    b: "b = pre @ [Call_CreateTags r vol k v, Log FatalLevel ''Error creating tags'' fs]"
    and pre: "orderly env (h @ a) pre"
    and c: "\<not> succeeded env ((h @ a) @ pre) (Call_CreateTags r vol k v)"
    unfolding halted_def by blast
  have "a @ b = (a @ pre) @ [Call_CreateTags r vol k v, Log FatalLevel ''Error creating tags'' fs]"
    using b by simp
  moreover have "orderly env h (a @ pre)"
    using assms(1) pre by (simp add: orderly_append)
  moreover have "\<not> succeeded env (h @ (a @ pre)) (Call_CreateTags r vol k v)"
    using c by simp
  ultimately show ?thesis
    unfolding halted_def by blast
qed

lemma halted_failed:
  assumes "halted env h (pre @ c # post)" and "\<not> succeeded env (h @ pre) c"
  shows "\<exists>fs. post = [Log FatalLevel ''Error creating tags'' fs]"
proof -
  from assms(1) obtain pre' r vol k v fs where
    eq: "pre @ c # post = pre' @ [Call_CreateTags r vol k v, Log FatalLevel ''Error creating tags'' fs]"
    and pre': "orderly env h pre'"
    unfolding halted_def by blast
  from eq obtain u where
    "pre = pre' @ u \<and> u @ c # post = [Call_CreateTags r vol k v, Log FatalLevel ''Error creating tags'' fs] \<or>
     pre @ u = pre' \<and> c # post = u @ [Call_CreateTags r vol k v, Log FatalLevel ''Error creating tags'' fs]"
    by (auto simp: append_eq_append_conv2)
  then show ?thesis
  proof
    assume a: "pre = pre' @ u \<and>
      u @ c # post = [Call_CreateTags r vol k v, Log FatalLevel ''Error creating tags'' fs]"
    then show ?thesis
      using assms(2) by (cases u; cases "tl u") auto
  next
    assume a: "pre @ u = pre' \<and>
      c # post = u @ [Call_CreateTags r vol k v, Log FatalLevel ''Error creating tags'' fs]"
    show ?thesis
    proof (cases u)
      case Nil
      with a show ?thesis by simp
    next
      case (Cons d u')
      with a have "pre' = pre @ c # u'" by auto
      with pre' have "succeeded env (h @ pre) c"
        by (simp add: orderly_append)
      with assms(2) show ?thesis by simp
    qed
  qed
qed

lemma regular_failed:
  assumes "regular env st r f"
    and "trace (final r f) = trace st @ pre @ c # post"
    and "\<not> succeeded env (trace st @ pre) c"
  shows "aborted r = Some Fatal \<and> (\<exists>fs. post = [Log FatalLevel ''Error creating tags'' fs])"
proof -
  from assms(1,2) have
    "orderly env (trace st) (pre @ c # post) \<or>
     aborted r = Some Fatal \<and> halted env (trace st) (pre @ c # post)"
    unfolding regular_def by auto
  moreover have "\<not> orderly env (trace st) (pre @ c # post)"
    using assms(3) by (simp add: orderly_append)
  ultimately show ?thesis
    using halted_failed [OF _ assms(3)] by blast
qed

lemma regular_step:
  assumes "trace st1 = trace st @ tr1" and "orderly env (trace st) tr1" and "regular env st1 r f"
  shows "regular env st r f"
proof -
  from assms(3) obtain tr where tr: "trace (final r f) = trace st1 @ tr"
    and s: "orderly env (trace st1) tr \<or> aborted r = Some Fatal \<and> halted env (trace st1) tr"
    unfolding regular_def by blast
  have "trace (final r f) = trace st @ (tr1 @ tr)"
    using tr assms(1) by simp
  moreover have "orderly env (trace st) (tr1 @ tr) \<or>
      aborted r = Some Fatal \<and> halted env (trace st) (tr1 @ tr)"
    using s assms(1,2) by (auto simp: orderly_append intro: halted_prepend)
  ultimately show ?thesis
    unfolding regular_def by blast
qed

lemma regular_hasTag: "regular env st (hasTag ctx R k v vol reg st) snd"
proof (cases "hasTag ctx R k v vol reg st")
  case (Inl x)
  obtain a st' where "x = (a, st')" by (cases x)
  with Inl hasTag_Inl [of ctx R k v vol reg st a st'] show ?thesis
    by (simp add: regular_def final_def)
next
  case (Inr y)
  obtain b st' where "y = (b, st')" by (cases y)
  with Inr hasTag_Inr [of ctx R k v vol reg st b st'] show ?thesis
    by (auto simp: regular_def final_def existing_def emit_def)
qed

lemma regular_setTag: "regular env st (setTag env ctx svc k v vol st) snd"
proof (cases "CreateTags env (trace st) svc vol k v")
  case (Inl err)
  let ?tr = "[Call_CreateTags svc vol k v,
     Log FatalLevel ''Error creating tags'' (logWithCtx ctx @ [(''error'', err), (''volId'', vol)])]"
  have "halted env (trace st) ?tr"
    unfolding halted_def using Inl
    by (intro exI [of _ "[]"] exI [of _ svc] exI [of _ vol] exI [of _ k] exI [of _ v]
          exI [of _ "logWithCtx ctx @ [(''error'', err), (''volId'', vol)]"]) simp
  with Inl show ?thesis
    unfolding regular_def
    by (intro exI [of _ ?tr]) (simp add: setTag_def Let_def final_def aborted_def emit_def call_def)
next
  case (Inr ret)
  then show ?thesis
    unfolding regular_def
    by (auto simp: setTag_def Let_def final_def emit_def call_def)
qed

lemma regular_Inr:
  "regular env st (Inr x) f \<Longrightarrow> \<exists>tr. trace (f x) = trace st @ tr \<and> orderly env (trace st) tr"
  by (simp add: regular_def final_def aborted_def)

lemma regular_Inl: "regular env st (Inl x) f \<Longrightarrow> regular env st (Inl x) g"
  by (simp add: regular_def final_def aborted_def)

lemma regular_after:
  assumes "regular env st (Inr x) f" and "regular env (f x) r g"
  shows "regular env st r g"
proof -
  from regular_Inr [OF assms(1)] obtain tr where
    "trace (f x) = trace st @ tr" "orderly env (trace st) tr"
    by blast
  then show ?thesis
    using assms(2) by (rule regular_step)
qed

lemma regular_after_pair:
  "regular env st (Inr (b, st2)) snd \<Longrightarrow> regular env st2 r g \<Longrightarrow> regular env st r g"
  using regular_after [of env st "(b, st2)" snd r g] by simp

lemma regular_range:
  "regular env st (addAWSTags_range env ctx reg vols vol toks a st) snd"
proof (induction toks arbitrary: a st)
  case Nil
  show ?case by (simp add: regular_def final_def)
next
  case (Cons tok toks)
  note IH = Cons.IH
  show ?case
  proof (cases "wellformed tok")
    case False
    have "trace (skipped ctx st) = trace st @ [Log ErrorLevel ''Skipping malformed tag'' (logWithCtx ctx)]"
      by (simp add: skipped_def emit_def)
    moreover have "orderly env (trace st) [Log ErrorLevel ''Skipping malformed tag'' (logWithCtx ctx)]"
      by simp
    ultimately have "regular env st (addAWSTags_range env ctx reg vols vol toks a (skipped ctx st)) snd"
      using IH by (rule regular_step)
    with False show ?thesis
      by (simp add: range_malformed)
  next
    case True
    let ?p = "pair_of tok"
    let ?st1 = "announced ctx ?p vol reg st"
    let ?ann = "Log InfoLevel ''Processing EBS Volume''
       (logWithCtx ctx @ [(''tagKey'', fst ?p), (''tagValue'', snd ?p),
          (''volId'', vol), (''region'', reg)])"
    have st1: "trace ?st1 = trace st @ [?ann]" "orderly env (trace st) [?ann]"
      by (simp_all add: announced_def emit_def)
    show ?thesis
    proof (cases vols)
      case Nil
      with True have "addAWSTags_range env ctx reg vols vol (tok # toks) a st = Inl (Panic, ?st1)"
        by (simp add: range_wellformed)
      with st1 show ?thesis
        by (simp add: regular_def final_def)
    next
      case (Cons v0 vs)
      let ?h = "hasTag ctx (Tags v0) (fst ?p) (snd ?p) vol reg ?st1"
      have h: "regular env ?st1 ?h snd"
        by (rule regular_hasTag)
      show ?thesis
      proof (cases ?h)
        case (Inl x)
        with True Cons have "addAWSTags_range env ctx reg vols vol (tok # toks) a st = Inl x"
          by (simp add: range_wellformed)
        moreover from h Inl have "regular env ?st1 (Inl x :: (bool \<times> state) result) snd"
          by simp
        ultimately show ?thesis
          using regular_step [OF st1] by simp
      next
        case (Inr y)
        obtain b st2 where y: "y = (b, st2)" by (cases y)
        from h Inr y have h2: "regular env ?st1 (Inr (b, st2) :: (bool \<times> state) result) snd"
          by simp
        show ?thesis
        proof (cases b)
          case True
          with \<open>wellformed tok\<close> Cons Inr y
          have "addAWSTags_range env ctx reg vols vol (tok # toks) a st =
                addAWSTags_range env ctx reg vols vol toks a st2"
            by (simp add: range_wellformed)
          moreover have "regular env ?st1 (addAWSTags_range env ctx reg vols vol toks a st2) snd"
            by (rule regular_after_pair [OF h2]) (rule IH)
          ultimately show ?thesis
            using regular_step [OF st1] by simp
        next
          case False
          let ?s = "setTag env ctx reg (fst ?p) (snd ?p) vol st2"
          have s: "regular env st2 ?s snd"
            by (rule regular_setTag)
          show ?thesis
          proof (cases ?s)
            case (Inl x)
            with \<open>wellformed tok\<close> Cons Inr y False
            have "addAWSTags_range env ctx reg vols vol (tok # toks) a st = Inl x"
              by (simp add: range_wellformed)
            moreover from s Inl have "regular env st2 (Inl x :: (bool \<times> state) result) snd"
              by simp
            then have "regular env ?st1 (Inl x :: (bool \<times> state) result) snd"
              by (rule regular_after_pair [OF h2])
            ultimately show ?thesis
              using regular_step [OF st1] by simp
          next
            case (Inr z)
            obtain c st3 where z: "z = (c, st3)" by (cases z)
            with \<open>wellformed tok\<close> Cons \<open>?h = Inr y\<close> y False Inr
            have "addAWSTags_range env ctx reg vols vol (tok # toks) a st =
                  addAWSTags_range env ctx reg vols vol toks True st3"
              by (simp add: range_wellformed)
            moreover from s Inr z have "regular env st2 (Inr (c, st3) :: (bool \<times> state) result) snd"
              by simp
            then have "regular env st2 (addAWSTags_range env ctx reg vols vol toks True st3) snd"
              by (rule regular_after_pair) (rule IH)
            then have "regular env ?st1 (addAWSTags_range env ctx reg vols vol toks True st3) snd"
              by (rule regular_after_pair [OF h2])
            ultimately show ?thesis
              using regular_step [OF st1] by simp
          qed
        qed
      qed
    qed
  qed
qed

lemma regular_same_trace:
  "regular env st (Inr x) f \<Longrightarrow> trace (g y) = trace (f x) \<Longrightarrow> regular env st (Inr y) g"
  by (simp add: regular_def final_def aborted_def)

lemma regular_addAWSTags:
  "regular env st (addAWSTags env ctx s awsVolumeID sep st) (\<lambda>x. x)"
proof (cases "splitVol awsVolumeID")
  case (Inl a)
  then show ?thesis
    by (simp add: addAWSTags_def regular_def final_def)
next
  case (Inr rv)
  obtain reg vol where rv: "rv = (reg, vol)" by (cases rv)
  let ?st1 = "call (Call_NewSession reg) st"
  let ?st2 = "call (Call_DescribeVolumes reg vol) ?st1"
  have st2: "trace ?st2 = trace st @ [Call_NewSession reg, Call_DescribeVolumes reg vol]"
    "orderly env (trace st) [Call_NewSession reg, Call_DescribeVolumes reg vol]"
    by (simp_all add: call_def)
  show ?thesis
  proof (cases "NewSession env (trace st) reg")
    case (Some err)
    with Inr rv show ?thesis
      by (simp add: addAWSTags_def regular_def final_def call_def)
  next
    case None
    show ?thesis
    proof (cases "DescribeVolumes env (trace ?st1) reg vol")
      case (Inl err)
      with Inr rv None show ?thesis
        by (simp add: addAWSTags_def regular_def final_def call_def emit_def Let_def)
    next
      case vols: (Inr vols)
      let ?l = "addAWSTags_range env ctx reg vols vol (Split s sep) False ?st2"
      have l: "regular env ?st2 ?l snd"
        by (rule regular_range)
      show ?thesis
      proof (cases ?l)
        case (Inl x)
        with Inr rv None vols have "addAWSTags env ctx s awsVolumeID sep st = Inl x"
          by (simp add: addAWSTags_def Let_def)
        moreover from l Inl have "regular env ?st2 (Inl x :: (bool \<times> state) result) snd"
          by simp
        then have "regular env ?st2 (Inl x :: state result) (\<lambda>x. x)"
          by (rule regular_Inl)
        then have "regular env st (Inl x :: state result) (\<lambda>x. x)"
          by (rule regular_step [OF st2])
        ultimately show ?thesis
          by (simp only:)
      next
        case l': (Inr y)
        obtain a' st3 where y: "y = (a', st3)" by (cases y)
        with Inr rv None vols l'
        have "addAWSTags env ctx s awsVolumeID sep st =
              Inr (if a' then st3\<lparr>volumesTagged := volumesTagged st3 + 1\<rparr> else st3)"
          by (simp add: addAWSTags_def Let_def)
        moreover from l l' y
        have "regular env ?st2
                (Inr (if a' then st3\<lparr>volumesTagged := volumesTagged st3 + 1\<rparr> else st3) :: state result)
                (\<lambda>x. x)"
          by (auto intro: regular_same_trace [of env ?st2 "(a', st3)" snd])
        then have "regular env st
                (Inr (if a' then st3\<lparr>volumesTagged := volumesTagged st3 + 1\<rparr> else st3) :: state result)
                (\<lambda>x. x)"
          by (rule regular_step [OF st2])
        ultimately show ?thesis
          by (simp only:)
      qed
    qed
  qed
qed

lemma regular_process_event: "regular env st (process_event env event ctx st) snd"
proof (cases "Object event")
  case Other
  then show ?thesis
    by (simp add: process_event_def regular_def final_def emit_def Let_def)
next
  case (Claim pvc)
  show ?thesis
  proof (cases "Type event = Added \<or> Type event = Modified")
    case False
    with Claim show ?thesis
      by (simp add: process_event_def regular_def final_def Let_def)
  next
    case True
    let ?st = "st\<lparr>eventsProcessed := eventsProcessed st + 1\<rparr>"
    let ?st1 = "call (Call_Get (Spec_VolumeName pvc)) ?st"
    let ?ctx1 = "ctx\<lparr>ns := Some (Namespace pvc), pvcname := Some (Name pvc),
                    volname := Some (Spec_VolumeName pvc)\<rparr>"
    show ?thesis
    proof (cases "PersistentVolumes_Get env (trace st) (Spec_VolumeName pvc)")
      case (Inl errp)
      with Claim True show ?thesis
        by (simp add: process_event_def regular_def final_def Let_def emit_def call_def)
    next
      case (Inr awsVolume)
      show ?thesis
      proof (cases "AWSElasticBlockStore awsVolume")
        case None
        with Claim True Inr show ?thesis
          by (simp add: process_event_def regular_def final_def Let_def emit_def call_def)
      next
        case (Some source)
        let ?st2 = "emit InfoLevel ''Processing Volume Tags'' (logWithCtx ?ctx1) ?st1"
        have st2: "trace ?st2 = trace st @
            [Call_Get (Spec_VolumeName pvc), Log InfoLevel ''Processing Volume Tags'' (logWithCtx ?ctx1)]"
          "orderly env (trace st)
            [Call_Get (Spec_VolumeName pvc), Log InfoLevel ''Processing Volume Tags'' (logWithCtx ?ctx1)]"
          by (simp_all add: emit_def call_def)
        obtain separator tagsToAdd where
          ar: "annotations_range (Annotations pvc) ('','', '''') = (separator, tagsToAdd)"
          by (cases "annotations_range (Annotations pvc) ('','', '''')")
        show ?thesis
        proof (cases "isEBSVolume pvc \<and> tagsToAdd \<noteq> '''' \<and> \<not> dryrun env")
          case False
          with Claim True Inr Some ar show ?thesis
            by (auto simp: process_event_def regular_def final_def Let_def emit_def call_def)
        next
          case go: True
          let ?a = "addAWSTags env ?ctx1 tagsToAdd (VolumeID source) separator ?st2"
          have a: "regular env ?st2 ?a (\<lambda>x. x)"
            by (rule regular_addAWSTags)
          show ?thesis
          proof (cases ?a)
            case (Inl x)
            with Claim True Inr Some ar go have "process_event env event ctx st = Inl x"
              by (simp add: process_event_def Let_def)
            moreover from a Inl have "regular env ?st2 (Inl x :: state result) (\<lambda>x. x)"
              by simp
            then have "regular env ?st2 (Inl x :: (Ctx \<times> state) result) snd"
              by (rule regular_Inl)
            then have "regular env st (Inl x :: (Ctx \<times> state) result) snd"
              by (rule regular_step [OF st2])
            ultimately show ?thesis
              by (simp only:)
          next
            case a': (Inr st3)
            with Claim True Inr Some ar go have "process_event env event ctx st = Inr (?ctx1, st3)"
              by (simp add: process_event_def Let_def)
            moreover from a a' have "regular env ?st2 (Inr st3 :: state result) (\<lambda>x. x)"
              by simp
            then have "regular env ?st2 (Inr (?ctx1, st3) :: (Ctx \<times> state) result) snd"
              by (rule regular_same_trace) simp
            then have "regular env st (Inr (?ctx1, st3) :: (Ctx \<times> state) result) snd"
              by (rule regular_step [OF st2])
            ultimately show ?thesis
              by (simp only:)
          qed
        qed
      qed
    qed
  qed
qed

lemma regular_main_range: "regular env st (main_range env events ctx st) snd"
proof (induction events arbitrary: ctx st)
  case Nil
  show ?case by (simp add: regular_def final_def)
next
  case (Cons event events)
  have p: "regular env st (process_event env event ctx st) snd"
    by (rule regular_process_event)
  show ?case
  proof (cases "process_event env event ctx st")
    case (Inl x)
    with p show ?thesis by simp
  next
    case (Inr y)
    obtain ctx' st' where y: "y = (ctx', st')" by (cases y)
    from p Inr y have "regular env st (Inr (ctx', st') :: (Ctx \<times> state) result) snd"
      by simp
    then have "regular env st (main_range env events ctx' st') snd"
      by (rule regular_after_pair) (rule Cons.IH)
    with Inr y show ?thesis by simp
  qed
qed

section \<open>Failures of the provider\<close>

lemma fetch_failure:
  assumes "splitVol awsVolumeID = Inr (reg, vol)"
    and "NewSession env (trace st) reg = None"
    and "DescribeVolumes env (trace st @ [Call_NewSession reg]) reg vol = Inl err"
  shows "addAWSTags env ctx s awsVolumeID sep st =
         Inr (st\<lparr>processingErrors := processingErrors st + 1,
                 trace := trace st @
                   [Call_NewSession reg, Call_DescribeVolumes reg vol,
                    Log ErrorLevel ''Cannot get volume''
                      (logWithCtx ctx @ [(''error'', err), (''volId'', vol), (''region'', reg)])]\<rparr>)"
  using assms by (simp add: addAWSTags_def Let_def call_def emit_def)

lemma regular_since: "regular env st r f \<Longrightarrow> trace (final r f) = trace st @ since st (final r f)"
  by (auto simp: regular_def since_def)

lemma aborted_Fatal: "aborted r = Some Fatal \<Longrightarrow> \<exists>st'. r = Inl (Fatal, st')"
  by (auto simp: aborted_def split: sum.splits)

lemma failed_apply_ends_run:
  assumes "since st (final (main_range env events ctx st) snd) = pre @ Call_CreateTags reg vol k v # post"
    and "CreateTags env (trace st @ pre) reg vol k v = Inl err"
  shows "(\<exists>st'. main_range env events ctx st = Inl (Fatal, st')) \<and>
         (\<exists>fs. post = [Log FatalLevel ''Error creating tags'' fs])"
proof -
  have r: "regular env st (main_range env events ctx st) snd"
    by (rule regular_main_range)
  from regular_since [OF r] assms(1)
  have "trace (final (main_range env events ctx st) snd) =
        trace st @ pre @ Call_CreateTags reg vol k v # post"
    by simp
  moreover have "\<not> succeeded env (trace st @ pre) (Call_CreateTags reg vol k v)"
    using assms(2) by simp
  ultimately show ?thesis
    using regular_failed [OF r] aborted_Fatal by blast
qed

lemma failed_fetch_skips_claim:
  assumes "Type event = Added \<or> Type event = Modified" and "Object event = Claim pvc"
    and "PersistentVolumes_Get env (trace st) (Spec_VolumeName pvc) = Inr pv"
    and "AWSElasticBlockStore pv = Some source" and "isEBSVolume pvc"
    and "annotations_range (Annotations pvc) ('','', '''') = (separator, tagsToAdd)"
    and "tagsToAdd \<noteq> ''''" and "\<not> dryrun env"
    and "splitVol (VolumeID source) = Inr (reg, vol)"
    and "ctx1 = ctx\<lparr>ns := Some (Namespace pvc), pvcname := Some (Name pvc),
                    volname := Some (Spec_VolumeName pvc)\<rparr>"
    and "h1 = trace st @ [Call_Get (Spec_VolumeName pvc),
                          Log InfoLevel ''Processing Volume Tags'' (logWithCtx ctx1)]"
    and "NewSession env h1 reg = None"
    and "DescribeVolumes env (h1 @ [Call_NewSession reg]) reg vol = Inl err"
  shows "process_event env event ctx st =
         Inr (ctx1,
              st\<lparr>eventsProcessed := eventsProcessed st + 1,
                 processingErrors := processingErrors st + 1,
                 trace := h1 @
                   [Call_NewSession reg, Call_DescribeVolumes reg vol,
                    Log ErrorLevel ''Cannot get volume''
                      (logWithCtx ctx1 @ [(''error'', err), (''volId'', vol), (''region'', reg)])]\<rparr>)"
proof -
  let ?st2 = "emit InfoLevel ''Processing Volume Tags'' (logWithCtx ctx1)
                (call (Call_Get (Spec_VolumeName pvc)) (st\<lparr>eventsProcessed := eventsProcessed st + 1\<rparr>))"
  have t: "trace ?st2 = h1"
    using assms(11) by (simp add: emit_def call_def)
  have "addAWSTags env ctx1 tagsToAdd (VolumeID source) separator ?st2 =
        Inr (?st2\<lparr>processingErrors := processingErrors ?st2 + 1,
                 trace := trace ?st2 @
                   [Call_NewSession reg, Call_DescribeVolumes reg vol,
                    Log ErrorLevel ''Cannot get volume''
                      (logWithCtx ctx1 @ [(''error'', err), (''volId'', vol), (''region'', reg)])]\<rparr>)"
    using assms(9,12,13) t by (intro fetch_failure) simp_all
  then show ?thesis
    using assms(1-8)
    by (simp add: process_event_def Let_def assms(10,11) emit_def call_def)
qed

text \<open>
  C9. A failure of \<open>CreateTags\<close> is fatal: in every run of the event loop, whatever the
  events and the answers of the services, a \<open>CreateTags\<close> call that the service
  answered with an error is followed in the trace by the entry of \<open>log.Fatal\<close> and by
  nothing else, and the run ended with \<open>Fatal\<close>: no tag and no claim is processed after
  it. A failure of \<open>DescribeVolumes\<close> is not: for an added or modified claim that
  reaches the fetch, the event is processed to its end with one more error counted and
  the error logged, no tag is created, and the loop goes on with the events that follow.
\<close>

theorem apply_fatal_fetch_recoverable:
  "(\<forall>events ctx st pre reg vol k v post err.
      since st (final (main_range env events ctx st) snd) =
        pre @ Call_CreateTags reg vol k v # post \<and>
      CreateTags env (trace st @ pre) reg vol k v = Inl err \<longrightarrow>
      (\<exists>st'. main_range env events ctx st = Inl (Fatal, st')) \<and>
      (\<exists>fs. post = [Log FatalLevel ''Error creating tags'' fs])) \<and>
   (\<forall>event events ctx st pvc pv source separator tagsToAdd reg vol err ctx1 h1.
      (Type event = Added \<or> Type event = Modified) \<and> Object event = Claim pvc \<and>
      PersistentVolumes_Get env (trace st) (Spec_VolumeName pvc) = Inr pv \<and>
      AWSElasticBlockStore pv = Some source \<and> isEBSVolume pvc \<and>
      annotations_range (Annotations pvc) ('','', '''') = (separator, tagsToAdd) \<and>
      tagsToAdd \<noteq> '''' \<and> \<not> dryrun env \<and>
      splitVol (VolumeID source) = Inr (reg, vol) \<and>
      ctx1 = ctx\<lparr>ns := Some (Namespace pvc), pvcname := Some (Name pvc),
                  volname := Some (Spec_VolumeName pvc)\<rparr> \<and>
      h1 = trace st @ [Call_Get (Spec_VolumeName pvc),
                       Log InfoLevel ''Processing Volume Tags'' (logWithCtx ctx1)] \<and>
      NewSession env h1 reg = None \<and>
      DescribeVolumes env (h1 @ [Call_NewSession reg]) reg vol = Inl err \<longrightarrow>
      process_event env event ctx st =
        Inr (ctx1,
             st\<lparr>eventsProcessed := eventsProcessed st + 1,
                processingErrors := processingErrors st + 1,
                trace := h1 @
                  [Call_NewSession reg, Call_DescribeVolumes reg vol,
                   Log ErrorLevel ''Cannot get volume''
                     (logWithCtx ctx1 @ [(''error'', err), (''volId'', vol), (''region'', reg)])]\<rparr>) \<and>
      main_range env (event # events) ctx st =
        main_range env events ctx1
          (st\<lparr>eventsProcessed := eventsProcessed st + 1,
              processingErrors := processingErrors st + 1,
              trace := h1 @
                [Call_NewSession reg, Call_DescribeVolumes reg vol,
                 Log ErrorLevel ''Cannot get volume''
                   (logWithCtx ctx1 @ [(''error'', err), (''volId'', vol), (''region'', reg)])]\<rparr>))"
proof (intro conjI allI impI)
  fix events :: "Event list" and ctx :: Ctx and st :: state and pre post :: "effect list"
    and reg vol k v err :: string
  assume "since st (final (main_range env events ctx st) snd) =
            pre @ Call_CreateTags reg vol k v # post \<and>
          CreateTags env (trace st @ pre) reg vol k v = Inl err"
  then have a: "since st (final (main_range env events ctx st) snd) =
            pre @ Call_CreateTags reg vol k v # post"
    and b: "CreateTags env (trace st @ pre) reg vol k v = Inl err"
    by simp_all
  from failed_apply_ends_run [OF a b]
  show "\<exists>st'. main_range env events ctx st = Inl (Fatal, st')"
    and "\<exists>fs. post = [Log FatalLevel ''Error creating tags'' fs]"
    by simp_all
next
  fix event :: Event and events :: "Event list" and ctx ctx1 :: Ctx and st :: state
    and pvc :: PersistentVolumeClaim and pv :: PersistentVolume
    and source :: AWSElasticBlockStoreVolumeSource
    and separator tagsToAdd reg vol err :: string and h1 :: "effect list"
  assume h: "(Type event = Added \<or> Type event = Modified) \<and> Object event = Claim pvc \<and>
      PersistentVolumes_Get env (trace st) (Spec_VolumeName pvc) = Inr pv \<and>
      AWSElasticBlockStore pv = Some source \<and> isEBSVolume pvc \<and>
      annotations_range (Annotations pvc) ('','', '''') = (separator, tagsToAdd) \<and>
      tagsToAdd \<noteq> '''' \<and> \<not> dryrun env \<and>
      splitVol (VolumeID source) = Inr (reg, vol) \<and>
      ctx1 = ctx\<lparr>ns := Some (Namespace pvc), pvcname := Some (Name pvc),
                  volname := Some (Spec_VolumeName pvc)\<rparr> \<and>
      h1 = trace st @ [Call_Get (Spec_VolumeName pvc),
                       Log InfoLevel ''Processing Volume Tags'' (logWithCtx ctx1)] \<and>
      NewSession env h1 reg = None \<and>
      DescribeVolumes env (h1 @ [Call_NewSession reg]) reg vol = Inl err"
  have p: "process_event env event ctx st =
        Inr (ctx1,
             st\<lparr>eventsProcessed := eventsProcessed st + 1,
                processingErrors := processingErrors st + 1,
                trace := h1 @
                  [Call_NewSession reg, Call_DescribeVolumes reg vol,
                   Log ErrorLevel ''Cannot get volume''
                     (logWithCtx ctx1 @ [(''error'', err), (''volId'', vol), (''region'', reg)])]\<rparr>)"
    by (rule failed_fetch_skips_claim [of event pvc env st pv source separator tagsToAdd reg vol])
      (use h in blast)+
  then show "process_event env event ctx st =
        Inr (ctx1,
             st\<lparr>eventsProcessed := eventsProcessed st + 1,
                processingErrors := processingErrors st + 1,
                trace := h1 @
                  [Call_NewSession reg, Call_DescribeVolumes reg vol,
                   Log ErrorLevel ''Cannot get volume''
                     (logWithCtx ctx1 @ [(''error'', err), (''volId'', vol), (''region'', reg)])]\<rparr>)" .
  from p show "main_range env (event # events) ctx st =
        main_range env events ctx1
          (st\<lparr>eventsProcessed := eventsProcessed st + 1,
              processingErrors := processingErrors st + 1,
              trace := h1 @
                [Call_NewSession reg, Call_DescribeVolumes reg vol,
                 Log ErrorLevel ''Cannot get volume''
                   (logWithCtx ctx1 @ [(''error'', err), (''volId'', vol), (''region'', reg)])]\<rparr>)"
    by simp
qed

theorem apply_fatal_fetch_recoverable_witness:
  "since start
     (final (main_range failing_create
               [example_event example_annotations, example_event example_annotations]
               background start) snd) =
     take 5 (since start
       (final (main_range failing_create
                 [example_event example_annotations, example_event example_annotations]
                 background start) snd)) @
     Call_CreateTags ''eu-west-1'' ''vol-0123456789abcdef0'' ''env'' ''prod'' #
     drop 6 (since start
       (final (main_range failing_create
                 [example_event example_annotations, example_event example_annotations]
                 background start) snd)) \<and>
   CreateTags failing_create
     (trace start @
      take 5 (since start
        (final (main_range failing_create
                  [example_event example_annotations, example_event example_annotations]
                  background start) snd)))
     ''eu-west-1'' ''vol-0123456789abcdef0'' ''env'' ''prod'' = Inl ''UnauthorizedOperation'' \<and>
   (\<exists>st'. main_range failing_create
            [example_event example_annotations, example_event example_annotations]
            background start = Inl (Fatal, st')) \<and>
   (\<exists>fs. drop 6 (since start
       (final (main_range failing_create
                 [example_event example_annotations, example_event example_annotations]
                 background start) snd)) = [Log FatalLevel ''Error creating tags'' fs]) \<and>
   (\<exists>ctx1 st1.
      process_event failing_fetch (example_event example_annotations) background start =
        Inr (ctx1, st1) \<and>
      processingErrors st1 = 1 \<and> applied (trace st1) = [] \<and>
      main_range failing_fetch
        [example_event example_annotations, example_event example_annotations] background start =
      main_range failing_fetch [example_event example_annotations] ctx1 st1)"
proof -
  let ?evs = "[example_event example_annotations, example_event example_annotations]"
  let ?tr = "since start (final (main_range failing_create ?evs background start) snd)"
  let ?ctx1 = "background\<lparr>ns := Some ''default'', pvcname := Some ''data'', volname := Some ''pv-1''\<rparr>"
  let ?h1 = "trace start @ [Call_Get ''pv-1'',
     Log InfoLevel ''Processing Volume Tags'' (logWithCtx ?ctx1)]"
  let ?st1 = "start\<lparr>eventsProcessed := eventsProcessed start + 1,
     processingErrors := processingErrors start + 1,
     trace := ?h1 @
       [Call_NewSession ''eu-west-1'', Call_DescribeVolumes ''eu-west-1'' ''vol-0123456789abcdef0'',
        Log ErrorLevel ''Cannot get volume''
          (logWithCtx ?ctx1 @ [(''error'', ''RequestLimitExceeded''),
             (''volId'', ''vol-0123456789abcdef0''), (''region'', ''eu-west-1'')])]\<rparr>"
  have a: "?tr = take 5 ?tr @
      Call_CreateTags ''eu-west-1'' ''vol-0123456789abcdef0'' ''env'' ''prod'' # drop 6 ?tr"
    by code_simp
  have b: "CreateTags failing_create (trace start @ take 5 ?tr)
      ''eu-west-1'' ''vol-0123456789abcdef0'' ''env'' ''prod'' = Inl ''UnauthorizedOperation''"
    by (simp add: failing_create_def example_env_def)
  from apply_fatal_fetch_recoverable [of failing_create] a b
  have 1: "(\<exists>st'. main_range failing_create ?evs background start = Inl (Fatal, st')) \<and>
      (\<exists>fs. drop 6 ?tr = [Log FatalLevel ''Error creating tags'' fs])"
    by blast
  have h: "(Type (example_event example_annotations) = Added \<or>
       Type (example_event example_annotations) = Modified) \<and>
      Object (example_event example_annotations) = Claim (example_claim example_annotations) \<and>
      PersistentVolumes_Get failing_fetch (trace start)
        (Spec_VolumeName (example_claim example_annotations)) = Inr example_volume \<and>
      AWSElasticBlockStore example_volume =
        Some \<lparr>VolumeID = ''aws://eu-west-1b/vol-0123456789abcdef0''\<rparr> \<and>
      isEBSVolume (example_claim example_annotations) \<and>
      annotations_range (Annotations (example_claim example_annotations)) ('','', '''') =
        ('','', ''env=prod,team=infra'') \<and>
      ''env=prod,team=infra'' \<noteq> '''' \<and> \<not> dryrun failing_fetch \<and>
      splitVol (VolumeID \<lparr>VolumeID = ''aws://eu-west-1b/vol-0123456789abcdef0''\<rparr>) =
        Inr (''eu-west-1'', ''vol-0123456789abcdef0'') \<and>
      ?ctx1 = background\<lparr>ns := Some (Namespace (example_claim example_annotations)),
                  pvcname := Some (Name (example_claim example_annotations)),
                  volname := Some (Spec_VolumeName (example_claim example_annotations))\<rparr> \<and>
      ?h1 = trace start @ [Call_Get (Spec_VolumeName (example_claim example_annotations)),
                       Log InfoLevel ''Processing Volume Tags'' (logWithCtx ?ctx1)] \<and>
      NewSession failing_fetch ?h1 ''eu-west-1'' = None \<and>
      DescribeVolumes failing_fetch (?h1 @ [Call_NewSession ''eu-west-1'']) ''eu-west-1''
        ''vol-0123456789abcdef0'' = Inl ''RequestLimitExceeded''"
    by code_simp
  from apply_fatal_fetch_recoverable [of failing_fetch, THEN conjunct2, rule_format, OF h,
    of "[example_event example_annotations]"]
  have 2: "process_event failing_fetch (example_event example_annotations) background start =
      Inr (?ctx1, ?st1) \<and>
    main_range failing_fetch ?evs background start =
      main_range failing_fetch [example_event example_annotations] ?ctx1 ?st1"
    by simp
  have 3: "processingErrors ?st1 = 1" "applied (trace ?st1) = []"
    by code_simp+
  from 2 3 have "\<exists>ctx1 st1.
      process_event failing_fetch (example_event example_annotations) background start =
        Inr (ctx1, st1) \<and>
      processingErrors st1 = 1 \<and> applied (trace st1) = [] \<and>
      main_range failing_fetch ?evs background start =
      main_range failing_fetch [example_event example_annotations] ctx1 st1"
    by blast
  with a b 1 show ?thesis
    by blast
qed

section \<open>The filter, the volume and the dry run\<close>

lemma isEBSVolume_range_iff:
  "isEBSVolume_range annotations =
   ((''volume.beta.kubernetes.io/storage-provisioner'', ''kubernetes.io/aws-ebs'') \<in> set annotations)"
  by (induction annotations) (auto split: if_splits)

lemma isEBSVolume_iff:
  "isEBSVolume pvc =
   ((''volume.beta.kubernetes.io/storage-provisioner'', ''kubernetes.io/aws-ebs'') \<in> set (Annotations pvc))"
  by (simp add: isEBSVolume_def isEBSVolume_range_iff)

text \<open>
  An event that does not reach \<open>addAWSTags\<close> adds no provider call to the trace.
\<close>

lemma processing_message:
  "msg \<noteq> ''Processing EBS Volume'' \<Longrightarrow> processing (Log lvl msg fs) = []"
  by (simp add: processing.simps)

lemma process_event_quiet:
  assumes "dryrun env \<or> (\<forall>pvc. Object event = Claim pvc \<longrightarrow> \<not> isEBSVolume pvc)"
  shows "\<exists>tr. trace (final (process_event env event ctx st) snd) = trace st @ tr \<and>
           filter is_provider_call tr = [] \<and> processed tr = []"
proof (cases "Object event")
  case Other
  then show ?thesis
    by (simp add: process_event_def final_def emit_def Let_def processed_def processing_level)
next
  case (Claim pvc)
  with assms have q: "dryrun env \<or> \<not> isEBSVolume pvc"
    by simp
  obtain separator tagsToAdd where
    ar: "annotations_range (Annotations pvc) ('','', '''') = (separator, tagsToAdd)"
    by (cases "annotations_range (Annotations pvc) ('','', '''')")
  from Claim q ar show ?thesis
    by (auto simp: process_event_def final_def emit_def call_def Let_def processed_def
          processing_level processing_message split: sum.splits option.splits)
qed

lemma main_range_quiet:
  assumes "dryrun env"
  shows "\<exists>tr. trace (final (main_range env events ctx st) snd) = trace st @ tr \<and>
           filter is_provider_call tr = [] \<and> processed tr = []"
proof (induction events arbitrary: ctx st)
  case Nil
  show ?case by (simp add: final_def processed_def)
next
  case (Cons event events)
  from process_event_quiet [of env event ctx st] assms obtain tr1 where
    tr1: "trace (final (process_event env event ctx st) snd) = trace st @ tr1"
      "filter is_provider_call tr1 = []" "processed tr1 = []"
    by blast
  show ?case
  proof (cases "process_event env event ctx st")
    case (Inl x)
    with tr1 show ?thesis
      by (auto simp: final_def)
  next
    case (Inr y)
    obtain ctx' st' where y: "y = (ctx', st')" by (cases y)
    from Cons.IH [of ctx' st'] obtain tr2 where
      tr2: "trace (final (main_range env events ctx' st') snd) = trace st' @ tr2"
        "filter is_provider_call tr2 = []" "processed tr2 = []"
      by blast
    from tr1 Inr y have "trace st' = trace st @ tr1"
      by (simp add: final_def)
    with tr2 have "trace (final (main_range env events ctx' st') snd) = trace st @ (tr1 @ tr2)"
      by simp
    moreover have "filter is_provider_call (tr1 @ tr2) = []" "processed (tr1 @ tr2) = []"
      using tr1(2,3) tr2(2,3) by (simp_all add: processed_append)
    ultimately show ?thesis
      using Inr y by (simp del: append_assoc)
  qed
qed

text \<open>
  An added or modified claim whose volume was fetched with an EBS source: the trace
  starts with the fetch and the entry that follows the reading of the identifier.
\<close>

lemma process_event_resolved:
  assumes "Type event = Added \<or> Type event = Modified" and "Object event = Claim pvc"
    and "PersistentVolumes_Get env (trace st) (Spec_VolumeName pvc) = Inr pv"
    and "AWSElasticBlockStore pv = Some source"
  shows "\<exists>rest. trace (final (process_event env event ctx st) snd) =
           trace st @ Call_Get (Spec_VolumeName pvc) #
             Log InfoLevel ''Processing Volume Tags''
               (logWithCtx (ctx\<lparr>ns := Some (Namespace pvc), pvcname := Some (Name pvc),
                                volname := Some (Spec_VolumeName pvc)\<rparr>)) # rest"
proof -
  let ?ctx1 = "ctx\<lparr>ns := Some (Namespace pvc), pvcname := Some (Name pvc),
                    volname := Some (Spec_VolumeName pvc)\<rparr>"
  let ?st2 = "emit InfoLevel ''Processing Volume Tags'' (logWithCtx ?ctx1)
                (call (Call_Get (Spec_VolumeName pvc)) (st\<lparr>eventsProcessed := eventsProcessed st + 1\<rparr>))"
  obtain separator tagsToAdd where
    ar: "annotations_range (Annotations pvc) ('','', '''') = (separator, tagsToAdd)"
    by (cases "annotations_range (Annotations pvc) ('','', '''')")
  show ?thesis
  proof (cases "isEBSVolume pvc \<and> tagsToAdd \<noteq> '''' \<and> \<not> dryrun env")
    case False
    with assms ar show ?thesis
      by (auto simp: process_event_def final_def emit_def call_def Let_def)
  next
    case True
    let ?a = "addAWSTags env ?ctx1 tagsToAdd (VolumeID source) separator ?st2"
    from regular_addAWSTags [of env ?st2 ?ctx1 tagsToAdd "VolumeID source" separator]
    obtain tr where tr: "trace (final ?a (\<lambda>x. x)) = trace ?st2 @ tr"
      unfolding regular_def by blast
    have "trace (final (process_event env event ctx st) snd) = trace (final ?a (\<lambda>x. x))"
      using assms ar True by (simp add: process_event_def final_def Let_def split: sum.splits)
    with tr show ?thesis
      by (simp add: emit_def call_def)
  qed
qed

text \<open>
  C10. For every added or modified claim whose volume object was fetched: if the volume
  has no EBS source, reading the volume identifier panics right after the fetch, whatever
  the annotations of the claim are (the filter is not reached); if it has one, the run
  passes the reading and logs \<open>Processing Volume Tags\<close>.
\<close>

theorem nil_volume_source_panics:
  assumes "Type event = Added \<or> Type event = Modified" and "Object event = Claim pvc"
    and "PersistentVolumes_Get env (trace st) (Spec_VolumeName pvc) = Inr pv"
  shows "(AWSElasticBlockStore pv = None \<longrightarrow>
            process_event env event ctx st =
              Inl (Panic,
                   st\<lparr>eventsProcessed := eventsProcessed st + 1,
                      trace := trace st @ [Call_Get (Spec_VolumeName pvc)]\<rparr>)) \<and>
         (\<forall>source. AWSElasticBlockStore pv = Some source \<longrightarrow>
            (\<exists>rest. since st (final (process_event env event ctx st) snd) =
               Call_Get (Spec_VolumeName pvc) #
               Log InfoLevel ''Processing Volume Tags''
                 (logWithCtx (ctx\<lparr>ns := Some (Namespace pvc), pvcname := Some (Name pvc),
                                  volname := Some (Spec_VolumeName pvc)\<rparr>)) # rest))"
proof (intro conjI allI impI)
  assume "AWSElasticBlockStore pv = None"
  with assms show "process_event env event ctx st =
      Inl (Panic,
           st\<lparr>eventsProcessed := eventsProcessed st + 1,
              trace := trace st @ [Call_Get (Spec_VolumeName pvc)]\<rparr>)"
    by (simp add: process_event_def Let_def call_def)
next
  fix source
  assume "AWSElasticBlockStore pv = Some source"
  from process_event_resolved [OF assms this, of ctx]
  show "\<exists>rest. since st (final (process_event env event ctx st) snd) =
      Call_Get (Spec_VolumeName pvc) #
      Log InfoLevel ''Processing Volume Tags''
        (logWithCtx (ctx\<lparr>ns := Some (Namespace pvc), pvcname := Some (Name pvc),
                         volname := Some (Spec_VolumeName pvc)\<rparr>)) # rest"
    by (auto simp: since_def)
qed

theorem nil_volume_source_panics_witness:
  "(Type (example_event example_annotations) = Added \<or>
    Type (example_event example_annotations) = Modified) \<and>
   Object (example_event example_annotations) = Claim (example_claim example_annotations) \<and>
   PersistentVolumes_Get other_volume (trace start)
     (Spec_VolumeName (example_claim example_annotations)) = Inr \<lparr>AWSElasticBlockStore = None\<rparr> \<and>
   isEBSVolume (example_claim example_annotations) \<and>
   process_event other_volume (example_event example_annotations) background start =
     Inl (Panic, start\<lparr>eventsProcessed := 1, trace := [Call_Get ''pv-1'']\<rparr>)"
proof -
  have 1: "Type (example_event example_annotations) = Added \<or>
      Type (example_event example_annotations) = Modified"
    by (simp add: example_event_def)
  have 2: "Object (example_event example_annotations) = Claim (example_claim example_annotations)"
    by (simp add: example_event_def)
  have 3: "PersistentVolumes_Get other_volume (trace start)
      (Spec_VolumeName (example_claim example_annotations)) = Inr \<lparr>AWSElasticBlockStore = None\<rparr>"
    by (simp add: other_volume_def)
  have 4: "isEBSVolume (example_claim example_annotations)"
    by code_simp
  from nil_volume_source_panics [OF 1 2 3, of background]
  have "process_event other_volume (example_event example_annotations) background start =
      Inl (Panic, start\<lparr>eventsProcessed := 1, trace := [Call_Get ''pv-1'']\<rparr>)"
    by (simp add: start_def example_claim_def)
  with 1 2 3 4 show ?thesis
    by blast
qed

text \<open>
  C6, as the code has it. For every added or modified claim event the bound volume is
  fetched first, whatever the annotations of the claim are: the fetch is the first thing
  the event adds to the trace, also for a claim that the filter rejects. What the filter
  gates are the parsing of the tag list and the calls of the provider: for a claim that
  it rejects no provider call is made, no pair of a tag list is processed, and no token is
  counted as malformed: the error counter moves by one if the fetch of the volume failed
  and not at all otherwise.
\<close>

theorem volume_fetched_before_filter:
  assumes "Type event = Added \<or> Type event = Modified" and "Object event = Claim pvc"
  shows "(\<exists>rest. since st (final (process_event env event ctx st) snd) =
            Call_Get (Spec_VolumeName pvc) # rest) \<and>
         (\<not> isEBSVolume pvc \<longrightarrow>
            filter is_provider_call (since st (final (process_event env event ctx st) snd)) = [] \<and>
            processed (since st (final (process_event env event ctx st) snd)) = [] \<and>
            processingErrors (final (process_event env event ctx st) snd) =
              processingErrors st +
              (case PersistentVolumes_Get env (trace st) (Spec_VolumeName pvc) of
                 Inl errp \<Rightarrow> 1
               | Inr awsVolume \<Rightarrow> 0))"
proof
  show "\<exists>rest. since st (final (process_event env event ctx st) snd) =
      Call_Get (Spec_VolumeName pvc) # rest"
  proof (cases "PersistentVolumes_Get env (trace st) (Spec_VolumeName pvc)")
    case (Inl errp)
    with assms show ?thesis
      by (simp add: process_event_def final_def since_def Let_def emit_def call_def)
  next
    case (Inr pv)
    show ?thesis
    proof (cases "AWSElasticBlockStore pv")
      case None
      with assms Inr show ?thesis
        by (simp add: process_event_def final_def since_def Let_def call_def)
    next
      case (Some source)
      from process_event_resolved [OF assms Inr Some, of ctx] show ?thesis
        by (auto simp: since_def)
    qed
  qed
next
  show "\<not> isEBSVolume pvc \<longrightarrow>
      filter is_provider_call (since st (final (process_event env event ctx st) snd)) = [] \<and>
      processed (since st (final (process_event env event ctx st) snd)) = [] \<and>
      processingErrors (final (process_event env event ctx st) snd) =
        processingErrors st +
        (case PersistentVolumes_Get env (trace st) (Spec_VolumeName pvc) of
           Inl errp \<Rightarrow> 1
         | Inr awsVolume \<Rightarrow> 0)"
  proof
    assume f: "\<not> isEBSVolume pvc"
    with assms(2) have "dryrun env \<or> (\<forall>pvc. Object event = Claim pvc \<longrightarrow> \<not> isEBSVolume pvc)"
      by simp
    from process_event_quiet [OF this, of ctx st]
    have q: "filter is_provider_call (since st (final (process_event env event ctx st) snd)) = []"
      "processed (since st (final (process_event env event ctx st) snd)) = []"
      by (auto simp: since_def)
    have "processingErrors (final (process_event env event ctx st) snd) =
        processingErrors st +
        (case PersistentVolumes_Get env (trace st) (Spec_VolumeName pvc) of
           Inl errp \<Rightarrow> 1
         | Inr awsVolume \<Rightarrow> 0)"
    proof (cases "PersistentVolumes_Get env (trace st) (Spec_VolumeName pvc)")
      case (Inl errp)
      with assms show ?thesis
        by (simp add: process_event_def final_def Let_def emit_def call_def)
    next
      case (Inr pv)
      show ?thesis
      proof (cases "AWSElasticBlockStore pv")
        case None
        with assms Inr show ?thesis
          by (simp add: process_event_def final_def Let_def call_def)
      next
        case (Some source)
        with assms Inr f show ?thesis
          by (simp add: process_event_def final_def Let_def emit_def call_def)
      qed
    qed
    with q show "filter is_provider_call (since st (final (process_event env event ctx st) snd)) = [] \<and>
      processed (since st (final (process_event env event ctx st) snd)) = [] \<and>
      processingErrors (final (process_event env event ctx st) snd) =
        processingErrors st +
        (case PersistentVolumes_Get env (trace st) (Spec_VolumeName pvc) of
           Inl errp \<Rightarrow> 1
         | Inr awsVolume \<Rightarrow> 0)"
      by blast
  qed
qed

theorem volume_fetched_before_filter_witness:
  "(Type (example_event other_annotations) = Added \<or>
    Type (example_event other_annotations) = Modified) \<and>
   Object (example_event other_annotations) = Claim (example_claim other_annotations) \<and>
   \<not> isEBSVolume (example_claim other_annotations) \<and>
   (\<exists>rest. since start
      (final (process_event (example_env False []) (example_event other_annotations)
                background start) snd) = Call_Get ''pv-1'' # rest) \<and>
   filter is_provider_call
     (since start
        (final (process_event (example_env False []) (example_event other_annotations)
                  background start) snd)) = [] \<and>
   processed
     (since start
        (final (process_event (example_env False []) (example_event other_annotations)
                  background start) snd)) = [] \<and>
   processingErrors
     (final (process_event (example_env False []) (example_event other_annotations)
               background start) snd) = 0 \<and>
   processingErrors
     (final (process_event unbound (example_event other_annotations) background start) snd) = 1"
proof -
  let ?r = "process_event (example_env False []) (example_event other_annotations) background start"
  let ?u = "process_event unbound (example_event other_annotations) background start"
  have 1: "Type (example_event other_annotations) = Added \<or>
      Type (example_event other_annotations) = Modified"
    by (simp add: example_event_def)
  have 2: "Object (example_event other_annotations) = Claim (example_claim other_annotations)"
    by (simp add: example_event_def)
  have 3: "\<not> isEBSVolume (example_claim other_annotations)"
    by code_simp
  have 4: "Spec_VolumeName (example_claim other_annotations) = ''pv-1''"
    by (simp add: example_claim_def)
  have 5: "PersistentVolumes_Get (example_env False []) (trace start) ''pv-1'' = Inr example_volume"
    by (simp add: example_env_def)
  have 6: "PersistentVolumes_Get unbound (trace start) ''pv-1'' = Inl ''not found''"
    by (simp add: unbound_def)
  have 7: "processingErrors start = 0"
    by (simp add: start_def)
  from volume_fetched_before_filter [OF 1 2, of start "example_env False []" background] 3
  have a: "(\<exists>rest. since start (final ?r snd) = Call_Get ''pv-1'' # rest) \<and>
      filter is_provider_call (since start (final ?r snd)) = [] \<and>
      processed (since start (final ?r snd)) = [] \<and>
      processingErrors (final ?r snd) = 0"
    by (simp add: 4 5 7)
  from volume_fetched_before_filter [OF 1 2, of start unbound background] 3
  have b: "processingErrors (final ?u snd) = 1"
    by (simp add: 4 6 7)
  from 1 2 3 a b show ?thesis
    by blast
qed

text \<open>
  The claim C6 as the specification states it fails: a claim that the filter rejects
  triggers the fetch of its volume.
\<close>

theorem rejected_claim_fetches_volume:
  "\<not> isEBSVolume (example_claim other_annotations) \<and>
   Call_Get ''pv-1'' \<in>
     set (trace (final (process_event (example_env False []) (example_event other_annotations)
                          background start) snd))"
  by code_simp

text \<open>
  C4, as the code has it. For every added or modified claim whose annotations hold no
  entry of the provisioner key with the value \<open>kubernetes.io/aws-ebs\<close> (the key is
  absent, or has another value; strings are compared as they are), the filter returns
  false and no call of the provider is made for the claim, however the event ends; and
  when the bound volume was fetched and has an EBS source, the claim is ignored with a
  warning: the event returns, no error is counted, and the loop goes on.
\<close>

theorem unmarked_claim_ignored:
  assumes "(''volume.beta.kubernetes.io/storage-provisioner'', ''kubernetes.io/aws-ebs'')
             \<notin> set (Annotations pvc)"
    and "Type event = Added \<or> Type event = Modified" and "Object event = Claim pvc"
  shows "\<not> isEBSVolume pvc \<and>
         filter is_provider_call (since st (final (process_event env event ctx st) snd)) = [] \<and>
         (\<forall>pv source.
            PersistentVolumes_Get env (trace st) (Spec_VolumeName pvc) = Inr pv \<and>
            AWSElasticBlockStore pv = Some source \<longrightarrow>
            process_event env event ctx st =
              Inr (ctx\<lparr>ns := Some (Namespace pvc), pvcname := Some (Name pvc),
                       volname := Some (Spec_VolumeName pvc)\<rparr>,
                   st\<lparr>eventsProcessed := eventsProcessed st + 1,
                      trace := trace st @
                        [Call_Get (Spec_VolumeName pvc),
                         Log InfoLevel ''Processing Volume Tags''
                           (logWithCtx (ctx\<lparr>ns := Some (Namespace pvc), pvcname := Some (Name pvc),
                                            volname := Some (Spec_VolumeName pvc)\<rparr>)),
                         Log WarnLevel ''Volume is not EBS. Ignoring''
                           (logWithCtx (ctx\<lparr>ns := Some (Namespace pvc), pvcname := Some (Name pvc),
                                            volname := Some (Spec_VolumeName pvc)\<rparr>))]\<rparr>))"
proof -
  from assms(1) have f: "\<not> isEBSVolume pvc"
    by (simp add: isEBSVolume_iff)
  with assms(3) have "dryrun env \<or> (\<forall>pvc. Object event = Claim pvc \<longrightarrow> \<not> isEBSVolume pvc)"
    by simp
  from process_event_quiet [OF this, of ctx st]
  have q: "filter is_provider_call (since st (final (process_event env event ctx st) snd)) = []"
    by (auto simp: since_def)
  have "\<forall>pv source.
      PersistentVolumes_Get env (trace st) (Spec_VolumeName pvc) = Inr pv \<and>
      AWSElasticBlockStore pv = Some source \<longrightarrow>
      process_event env event ctx st =
        Inr (ctx\<lparr>ns := Some (Namespace pvc), pvcname := Some (Name pvc),
                 volname := Some (Spec_VolumeName pvc)\<rparr>,
             st\<lparr>eventsProcessed := eventsProcessed st + 1,
                trace := trace st @
                  [Call_Get (Spec_VolumeName pvc),
                   Log InfoLevel ''Processing Volume Tags''
                     (logWithCtx (ctx\<lparr>ns := Some (Namespace pvc), pvcname := Some (Name pvc),
                                      volname := Some (Spec_VolumeName pvc)\<rparr>)),
                   Log WarnLevel ''Volume is not EBS. Ignoring''
                     (logWithCtx (ctx\<lparr>ns := Some (Namespace pvc), pvcname := Some (Name pvc),
                                      volname := Some (Spec_VolumeName pvc)\<rparr>))]\<rparr>)"
    using assms(2,3) f by (simp add: process_event_def Let_def emit_def call_def)
  with f q show ?thesis
    by blast
qed

theorem unmarked_claim_ignored_witness:
  "(''volume.beta.kubernetes.io/storage-provisioner'', ''kubernetes.io/aws-ebs'')
     \<notin> set (Annotations (example_claim other_annotations)) \<and>
   (Type (example_event other_annotations) = Added \<or>
    Type (example_event other_annotations) = Modified) \<and>
   Object (example_event other_annotations) = Claim (example_claim other_annotations) \<and>
   PersistentVolumes_Get (example_env False []) (trace start)
     (Spec_VolumeName (example_claim other_annotations)) = Inr example_volume \<and>
   AWSElasticBlockStore example_volume =
     Some \<lparr>VolumeID = ''aws://eu-west-1b/vol-0123456789abcdef0''\<rparr> \<and>
   \<not> isEBSVolume (example_claim other_annotations) \<and>
   filter is_provider_call
     (since start
        (final (process_event (example_env False []) (example_event other_annotations)
                  background start) snd)) = [] \<and>
   processingErrors
     (final (process_event (example_env False []) (example_event other_annotations)
               background start) snd) = 0 \<and>
   aborted (process_event (example_env False []) (example_event other_annotations)
              background start) = None"
proof -
  let ?r = "process_event (example_env False []) (example_event other_annotations) background start"
  have 1: "(''volume.beta.kubernetes.io/storage-provisioner'', ''kubernetes.io/aws-ebs'')
      \<notin> set (Annotations (example_claim other_annotations))"
    by code_simp
  have 2: "Type (example_event other_annotations) = Added \<or>
      Type (example_event other_annotations) = Modified"
    by (simp add: example_event_def)
  have 3: "Object (example_event other_annotations) = Claim (example_claim other_annotations)"
    by (simp add: example_event_def)
  have 4: "PersistentVolumes_Get (example_env False []) (trace start)
      (Spec_VolumeName (example_claim other_annotations)) = Inr example_volume"
    by (simp add: example_env_def)
  have 5: "AWSElasticBlockStore example_volume =
      Some \<lparr>VolumeID = ''aws://eu-west-1b/vol-0123456789abcdef0''\<rparr>"
    by (simp add: example_volume_def)
  note t = unmarked_claim_ignored [OF 1 2 3, of start "example_env False []" background]
  from t have 6: "\<not> isEBSVolume (example_claim other_annotations)"
    and 7: "filter is_provider_call (since start (final ?r snd)) = []"
    by simp_all
  from t 4 5 have "?r =
      Inr (background\<lparr>ns := Some (Namespace (example_claim other_annotations)),
               pvcname := Some (Name (example_claim other_annotations)),
               volname := Some (Spec_VolumeName (example_claim other_annotations))\<rparr>,
           start\<lparr>eventsProcessed := eventsProcessed start + 1,
              trace := trace start @
                [Call_Get (Spec_VolumeName (example_claim other_annotations)),
                 Log InfoLevel ''Processing Volume Tags''
                   (logWithCtx (background\<lparr>ns := Some (Namespace (example_claim other_annotations)),
                      pvcname := Some (Name (example_claim other_annotations)),
                      volname := Some (Spec_VolumeName (example_claim other_annotations))\<rparr>)),
                 Log WarnLevel ''Volume is not EBS. Ignoring''
                   (logWithCtx (background\<lparr>ns := Some (Namespace (example_claim other_annotations)),
                      pvcname := Some (Name (example_claim other_annotations)),
                      volname := Some (Spec_VolumeName (example_claim other_annotations))\<rparr>))]\<rparr>)"
    by blast
  then have 8: "processingErrors (final ?r snd) = 0" and 9: "aborted ?r = None"
    by (simp_all add: final_def aborted_def start_def)
  from 1 2 3 4 5 6 7 8 9 show ?thesis
    by blast
qed

text \<open>
  The claim C4 as the specification states it fails: for a claim without the provisioner
  annotation whose volume cannot be fetched, an error is logged and counted.
\<close>

theorem unmarked_claim_error_counted:
  "\<not> isEBSVolume (example_claim []) \<and>
   processingErrors
     (final (process_event unbound (example_event []) background start) snd) = 1 \<and>
   last (trace (final (process_event unbound (example_event []) background start) snd)) =
     Log ErrorLevel ''Cannot find EBS volume associated with Volume Claim''
       [(''namespace'', ''default''), (''volumeClaimName'', ''data''), (''volumeName'', ''pv-1''),
        (''error'', ''not found'')]"
  by code_simp

text \<open>
  C5, as the code has it. In dry-run mode no call of the provider is made, in any run of
  the event loop: neither a tag creation, nor the fetch of the remote tags, nor the
  session. For an added or modified claim that passes the filter, whose volume was fetched
  with an EBS source and whose tag list is not empty, the event logs that it runs in dry
  run mode, with the tag list as the annotation holds it and the volume identifier, and
  returns: the filter and the scan of the annotations are what is executed of the steps
  before the tag creation; the tag list is not split and the tags are not compared.
\<close>

theorem dry_run_skips_reconciliation:
  assumes "dryrun env"
  shows "filter is_provider_call (since st (final (main_range env events ctx st) snd)) = [] \<and>
         processed (since st (final (main_range env events ctx st) snd)) = [] \<and>
         (\<forall>event pvc pv source separator tagsToAdd.
            (Type event = Added \<or> Type event = Modified) \<and> Object event = Claim pvc \<and>
            PersistentVolumes_Get env (trace st) (Spec_VolumeName pvc) = Inr pv \<and>
            AWSElasticBlockStore pv = Some source \<and> isEBSVolume pvc \<and>
            annotations_range (Annotations pvc) ('','', '''') = (separator, tagsToAdd) \<and>
            tagsToAdd \<noteq> '''' \<longrightarrow>
            process_event env event ctx st =
              Inr (ctx\<lparr>ns := Some (Namespace pvc), pvcname := Some (Name pvc),
                       volname := Some (Spec_VolumeName pvc)\<rparr>,
                   st\<lparr>eventsProcessed := eventsProcessed st + 1,
                      trace := trace st @
                        [Call_Get (Spec_VolumeName pvc),
                         Log InfoLevel ''Processing Volume Tags''
                           (logWithCtx (ctx\<lparr>ns := Some (Namespace pvc), pvcname := Some (Name pvc),
                                            volname := Some (Spec_VolumeName pvc)\<rparr>)),
                         Log InfoLevel ''Running in dry run mode, not adding tags''
                           (logWithCtx (ctx\<lparr>ns := Some (Namespace pvc), pvcname := Some (Name pvc),
                                            volname := Some (Spec_VolumeName pvc)\<rparr>) @
                            [(''tags'', tagsToAdd), (''volId'', VolumeID source)])]\<rparr>))"
proof -
  from main_range_quiet [OF assms, of events ctx st]
  have q: "filter is_provider_call (since st (final (main_range env events ctx st) snd)) = []"
    "processed (since st (final (main_range env events ctx st) snd)) = []"
    by (auto simp: since_def)
  have "\<forall>event pvc pv source separator tagsToAdd.
      (Type event = Added \<or> Type event = Modified) \<and> Object event = Claim pvc \<and>
      PersistentVolumes_Get env (trace st) (Spec_VolumeName pvc) = Inr pv \<and>
      AWSElasticBlockStore pv = Some source \<and> isEBSVolume pvc \<and>
      annotations_range (Annotations pvc) ('','', '''') = (separator, tagsToAdd) \<and>
      tagsToAdd \<noteq> '''' \<longrightarrow>
      process_event env event ctx st =
        Inr (ctx\<lparr>ns := Some (Namespace pvc), pvcname := Some (Name pvc),
                 volname := Some (Spec_VolumeName pvc)\<rparr>,
             st\<lparr>eventsProcessed := eventsProcessed st + 1,
                trace := trace st @
                  [Call_Get (Spec_VolumeName pvc),
                   Log InfoLevel ''Processing Volume Tags''
                     (logWithCtx (ctx\<lparr>ns := Some (Namespace pvc), pvcname := Some (Name pvc),
                                      volname := Some (Spec_VolumeName pvc)\<rparr>)),
                   Log InfoLevel ''Running in dry run mode, not adding tags''
                     (logWithCtx (ctx\<lparr>ns := Some (Namespace pvc), pvcname := Some (Name pvc),
                                      volname := Some (Spec_VolumeName pvc)\<rparr>) @
                      [(''tags'', tagsToAdd), (''volId'', VolumeID source)])]\<rparr>)"
    using assms by (simp add: process_event_def Let_def emit_def call_def)
  with q show ?thesis
    by blast
qed

theorem dry_run_skips_reconciliation_witness:
  "dryrun (example_env True []) \<and>
   filter is_provider_call
     (since start
        (final (main_range (example_env True [])
                  [example_event example_annotations, example_event other_annotations]
                  background start) snd)) = [] \<and>
   (Type (example_event example_annotations) = Added \<or>
    Type (example_event example_annotations) = Modified) \<and>
   Object (example_event example_annotations) = Claim (example_claim example_annotations) \<and>
   PersistentVolumes_Get (example_env True []) (trace start)
     (Spec_VolumeName (example_claim example_annotations)) = Inr example_volume \<and>
   AWSElasticBlockStore example_volume =
     Some \<lparr>VolumeID = ''aws://eu-west-1b/vol-0123456789abcdef0''\<rparr> \<and>
   isEBSVolume (example_claim example_annotations) \<and>
   annotations_range (Annotations (example_claim example_annotations)) ('','', '''') =
     ('','', ''env=prod,team=infra'') \<and>
   ''env=prod,team=infra'' \<noteq> '''' \<and>
   process_event (example_env True []) (example_event example_annotations) background start =
     Inr (\<lparr>ns = Some ''default'', pvcname = Some ''data'', volname = Some ''pv-1''\<rparr>,
          start\<lparr>eventsProcessed := 1,
             trace :=
               [Call_Get ''pv-1'',
                Log InfoLevel ''Processing Volume Tags''
                  [(''namespace'', ''default''), (''volumeClaimName'', ''data''),
                   (''volumeName'', ''pv-1'')],
                Log InfoLevel ''Running in dry run mode, not adding tags''
                  [(''namespace'', ''default''), (''volumeClaimName'', ''data''),
                   (''volumeName'', ''pv-1''), (''tags'', ''env=prod,team=infra''),
                   (''volId'', ''aws://eu-west-1b/vol-0123456789abcdef0'')]]\<rparr>)"
proof -
  have 0: "dryrun (example_env True [])"
    by (simp add: example_env_def)
  have h: "(Type (example_event example_annotations) = Added \<or>
       Type (example_event example_annotations) = Modified) \<and>
      Object (example_event example_annotations) = Claim (example_claim example_annotations) \<and>
      PersistentVolumes_Get (example_env True []) (trace start)
        (Spec_VolumeName (example_claim example_annotations)) = Inr example_volume \<and>
      AWSElasticBlockStore example_volume =
        Some \<lparr>VolumeID = ''aws://eu-west-1b/vol-0123456789abcdef0''\<rparr> \<and>
      isEBSVolume (example_claim example_annotations) \<and>
      annotations_range (Annotations (example_claim example_annotations)) ('','', '''') =
        ('','', ''env=prod,team=infra'') \<and>
      ''env=prod,team=infra'' \<noteq> ''''"
    by code_simp
  note t = dry_run_skips_reconciliation [OF 0, of start _ background]
  from t [of "[example_event example_annotations, example_event other_annotations]"]
  have 1: "filter is_provider_call
     (since start
        (final (main_range (example_env True [])
                  [example_event example_annotations, example_event other_annotations]
                  background start) snd)) = []"
    by simp
  from t [of "[]", THEN conjunct2, THEN conjunct2, rule_format, OF h]
  have 2: "process_event (example_env True []) (example_event example_annotations) background start =
     Inr (\<lparr>ns = Some ''default'', pvcname = Some ''data'', volname = Some ''pv-1''\<rparr>,
          start\<lparr>eventsProcessed := 1,
             trace :=
               [Call_Get ''pv-1'',
                Log InfoLevel ''Processing Volume Tags''
                  [(''namespace'', ''default''), (''volumeClaimName'', ''data''),
                   (''volumeName'', ''pv-1'')],
                Log InfoLevel ''Running in dry run mode, not adding tags''
                  [(''namespace'', ''default''), (''volumeClaimName'', ''data''),
                   (''volumeName'', ''pv-1''), (''tags'', ''env=prod,team=infra''),
                   (''volId'', ''aws://eu-west-1b/vol-0123456789abcdef0'')]]\<rparr>)"
    by (simp add: example_claim_def background_def start_def logWithCtx_def)
  from 0 1 h 2 show ?thesis
    by blast
qed

text \<open>
  The claim C5 as the specification states it fails: in dry-run mode the steps before the
  tag creation do not all execute as in normal mode. For the claim of the examples the
  normal mode fetches the remote tags and processes two pairs; the dry-run mode does
  neither.
\<close>

theorem dry_run_skips_fetch:
  "Call_DescribeVolumes ''eu-west-1'' ''vol-0123456789abcdef0'' \<in>
     set (trace (final (process_event (example_env False []) (example_event example_annotations)
                          background start) snd)) \<and>
   Call_DescribeVolumes ''eu-west-1'' ''vol-0123456789abcdef0'' \<notin>
     set (trace (final (process_event (example_env True []) (example_event example_annotations)
                          background start) snd)) \<and>
   processed (trace (final (process_event (example_env False []) (example_event example_annotations)
                              background start) snd)) =
     [(''env'', ''prod''), (''team'', ''infra'')] \<and>
   processed (trace (final (process_event (example_env True []) (example_event example_annotations)
                              background start) snd)) = []"
  by code_simp

section \<open>Two passes over the same claim\<close>

lemma scan_keyed: "scan R p = Some False \<Longrightarrow> keyed R"
  by (induction R) (auto simp: keyed_def split: option.splits if_splits)

lemma scan_skip:
  "\<forall>t \<in> set xs. \<exists>k. Key t = Some k \<and> k \<noteq> fst p \<Longrightarrow> scan (xs @ ys) p = scan ys p"
  by (induction xs) auto

lemma scan_filter_found:
  "scan R p = Some True \<Longrightarrow> \<forall>t \<in> set R. Key t = Some (fst p) \<longrightarrow> Q t \<Longrightarrow>
   scan (filter Q R @ ys) p = Some True"
  by (induction R) (auto split: option.splits if_splits)

lemma scan_overwrite_same: "keyed R \<Longrightarrow> scan (overwrite R p) p = Some True"
proof -
  assume "keyed R"
  then have "\<forall>t \<in> set (filter (\<lambda>t. Key t \<noteq> Some (fst p)) R). \<exists>k. Key t = Some k \<and> k \<noteq> fst p"
    by (auto simp: keyed_def)
  then show ?thesis
    unfolding overwrite_def by (simp add: scan_skip)
qed

lemma scan_overwrite_other:
  "scan R p = Some True \<Longrightarrow> fst q \<noteq> fst p \<Longrightarrow> scan (overwrite R q) p = Some True"
  unfolding overwrite_def by (rule scan_filter_found) auto

lemma keyed_overwrite: "keyed R \<Longrightarrow> keyed (overwrite R q)"
  by (auto simp: keyed_def overwrite_def)

lemma foldl_overwrite_found:
  assumes "\<forall>q \<in> set A. \<forall>p \<in> set S. fst q = fst p \<longrightarrow> q = p"
    and "keyed R \<or> A = []"
    and "\<forall>p \<in> set S. scan R p = Some True \<or> p \<in> set A"
  shows "\<forall>p \<in> set S. scan (foldl overwrite R A) p = Some True"
  using assms
proof (induction A arbitrary: R)
  case Nil
  then show ?case by simp
next
  case (Cons q A)
  from Cons.prems(2) have k: "keyed R" by simp
  have "\<forall>p \<in> set S. scan (overwrite R q) p = Some True \<or> p \<in> set A"
  proof
    fix p assume p: "p \<in> set S"
    show "scan (overwrite R q) p = Some True \<or> p \<in> set A"
    proof (cases "fst q = fst p")
      case True
      with Cons.prems(1) p have "q = p" by simp
      with k show ?thesis by (simp add: scan_overwrite_same)
    next
      case False
      with Cons.prems(3) p show ?thesis
        by (auto simp: scan_overwrite_other)
    qed
  qed
  moreover have "\<forall>q \<in> set A. \<forall>p \<in> set S. fst q = fst p \<longrightarrow> q = p"
    using Cons.prems(1) by simp
  moreover have "keyed (overwrite R q) \<or> A = []"
    using k by (simp add: keyed_overwrite)
  ultimately have "\<forall>p \<in> set S. scan (foldl overwrite (overwrite R q) A) p = Some True"
    by (rule Cons.IH [rotated 2])
  then show ?case by simp
qed

lemma range_scanned:
  "addAWSTags_range env ctx reg (v0 # vs) vol toks a st = Inr (a', st') \<Longrightarrow>
   \<forall>p \<in> set (parse_tags toks). scan (Tags v0) p \<noteq> None"
proof (induction toks arbitrary: a st)
  case Nil
  then show ?case by (simp add: parse_tags_def)
next
  case (Cons tok toks)
  show ?case
  proof (cases "wellformed tok")
    case False
    with Cons.prems have "addAWSTags_range env ctx reg (v0 # vs) vol toks a (skipped ctx st) = Inr (a', st')"
      by (simp add: range_malformed)
    from Cons.IH [OF this] False show ?thesis
      by (simp add: parse_tags_def)
  next
    case True
    let ?p = "pair_of tok"
    from Cons.prems True obtain b where b: "scan (Tags v0) ?p = Some b"
      by (cases "scan (Tags v0) ?p") (simp_all add: range_wellformed hasTag_scan)
    from Cons.prems True b obtain a1 st1 where
      "addAWSTags_range env ctx reg (v0 # vs) vol toks a1 st1 = Inr (a', st')"
      by (cases b) (auto simp: range_wellformed hasTag_scan split: sum.splits)
    from Cons.IH [OF this] True b show ?thesis
      by (simp add: parse_tags_def)
  qed
qed

lemma range_all_found:
  "\<forall>p \<in> set (parse_tags toks). scan (Tags v0) p = Some True \<Longrightarrow>
   \<exists>st'. addAWSTags_range env ctx reg (v0 # vs) vol toks a st = Inr (a, st')"
proof (induction toks arbitrary: st)
  case Nil
  then show ?case by simp
next
  case (Cons tok toks)
  from Cons.prems have rest: "\<forall>p \<in> set (parse_tags toks). scan (Tags v0) p = Some True"
    by (simp add: parse_tags_def)
  show ?case
  proof (cases "wellformed tok")
    case False
    with Cons.IH [OF rest, of "skipped ctx st"] show ?thesis
      by (simp add: range_malformed)
  next
    case True
    with Cons.prems have "scan (Tags v0) (pair_of tok) = Some True"
      by (simp add: parse_tags_def)
    with True Cons.IH [OF rest] show ?thesis
      by (simp add: range_wellformed hasTag_scan)
  qed
qed

lemma applied_since:
  assumes "since st st1 = Call_NewSession reg # Call_DescribeVolumes reg vol # tr"
    and "filter is_provider_call tr = map (\<lambda>p. Call_CreateTags reg vol (fst p) (snd p)) A"
  shows "applied (since st st1) = A"
proof -
  have "applied (since st st1) = applied tr"
    using assms(1) by (simp add: applied_def)
  also have "\<dots> = applied (filter is_provider_call tr)"
    by (simp only: applied_provider_calls)
  also have "\<dots> = A"
    by (simp only: assms(2) applied_CreateTags)
  finally show ?thesis .
qed

lemma first_pass_leaves:
  assumes "splitVol awsVolumeID = Inr (reg, vol)"
    and "DescribeVolumes env (trace st @ [Call_NewSession reg]) reg vol = Inr (v1 # vs1)"
    and "addAWSTags env ctx s awsVolumeID sep st = Inr st1"
    and "\<forall>p \<in> set (parse_tags (Split s sep)). \<forall>q \<in> set (parse_tags (Split s sep)).
           fst p = fst q \<longrightarrow> snd p = snd q"
  shows "\<forall>p \<in> set (parse_tags (Split s sep)).
           scan (foldl overwrite (Tags v1) (applied (since st st1))) p = Some True"
proof -
  let ?P = "parse_tags (Split s sep)"
  let ?A = "filter (\<lambda>p. \<not> present (Tags v1) p) ?P"
  let ?st0 = "call (Call_DescribeVolumes reg vol) (call (Call_NewSession reg) st)"
  from addAWSTags_returns [OF assms(1-3)] obtain a1 s1 where
    run1: "addAWSTags_range env ctx reg (v1 # vs1) vol (Split s sep) False ?st0 = Inr (a1, s1)"
    by blast
  from range_scanned [OF run1] have scanned: "\<forall>p \<in> set ?P. scan (Tags v1) p \<noteq> None" .
  from addAWSTags_delivered [OF assms(1-3)] obtain tr where
    tr: "since st st1 = Call_NewSession reg # Call_DescribeVolumes reg vol # tr"
      "filter is_provider_call tr = map (\<lambda>p. Call_CreateTags reg vol (fst p) (snd p)) ?A"
    by auto
  from tr have A: "applied (since st st1) = ?A"
    by (rule applied_since)
  have 1: "\<forall>q \<in> set ?A. \<forall>p \<in> set ?P. fst q = fst p \<longrightarrow> q = p"
  proof (intro ballI impI)
    fix q p assume "q \<in> set ?A" "p \<in> set ?P" "fst q = fst p"
    moreover from this have "q \<in> set ?P" by simp
    ultimately have "snd q = snd p"
      using assms(4) by blast
    with \<open>fst q = fst p\<close> show "q = p"
      by (simp add: prod_eq_iff)
  qed
  have 2: "keyed (Tags v1) \<or> ?A = []"
  proof (cases "?A = []")
    case True
    then show ?thesis by simp
  next
    case False
    then obtain p where p: "p \<in> set ?P" "\<not> present (Tags v1) p"
      by (auto simp: filter_empty_conv)
    with scanned obtain b where b: "scan (Tags v1) p = Some b"
      by auto
    from scan_present [OF b] p(2) have "\<not> b" by simp
    with b have "scan (Tags v1) p = Some False"
      by simp
    then show ?thesis
      by (simp add: scan_keyed)
  qed
  have 3: "\<forall>p \<in> set ?P. scan (Tags v1) p = Some True \<or> p \<in> set ?A"
  proof
    fix p assume p: "p \<in> set ?P"
    with scanned obtain b where b: "scan (Tags v1) p = Some b"
      by auto
    from scan_present [OF b] have "b = present (Tags v1) p" .
    with b p show "scan (Tags v1) p = Some True \<or> p \<in> set ?A"
      by (cases b) simp_all
  qed
  from foldl_overwrite_found [OF 1 2 3] show ?thesis
    by (simp only: A)
qed

lemma pass_finds_all:
  assumes "splitVol awsVolumeID = Inr (reg, vol)"
    and "NewSession env (trace st) reg = None"
    and "DescribeVolumes env (trace st @ [Call_NewSession reg]) reg vol = Inr (v0 # vs)"
    and "\<forall>p \<in> set (parse_tags (Split s sep)). scan (Tags v0) p = Some True"
  shows "\<exists>st2. addAWSTags env ctx s awsVolumeID sep st = Inr st2 \<and>
           applied (since st st2) = [] \<and>
           tagsExisting st2 = tagsExisting st + length (parse_tags (Split s sep)) \<and>
           tagsAdded st2 = tagsAdded st \<and> volumesTagged st2 = volumesTagged st"
proof -
  let ?P = "parse_tags (Split s sep)"
  let ?st0 = "call (Call_DescribeVolumes reg vol) (call (Call_NewSession reg) st)"
  from range_all_found [OF assms(4), of env ctx reg vs vol False ?st0] obtain s2 where
    run: "addAWSTags_range env ctx reg (v0 # vs) vol (Split s sep) False ?st0 = Inr (False, s2)"
    by blast
  have d: "DescribeVolumes env (trace (call (Call_NewSession reg) st)) reg vol = Inr (v0 # vs)"
    using assms(3) by (simp add: call_def)
  have r: "addAWSTags env ctx s awsVolumeID sep st = Inr s2"
    using assms(1,2) d run by (simp add: addAWSTags_def Let_def)
  have all: "\<forall>p \<in> set ?P. present (Tags v0) p"
  proof
    fix p assume "p \<in> set ?P"
    with assms(4) have "scan (Tags v0) p = Some True" by simp
    from scan_present [OF this] show "present (Tags v0) p" by simp
  qed
  then have f1: "filter (\<lambda>p. \<not> present (Tags v0) p) ?P = []"
    by (simp add: filter_empty_conv)
  from all have f2: "filter (present (Tags v0)) ?P = ?P"
    by (simp add: filter_id_conv)
  from range_delivered [OF run] obtain tr where
    tr: "trace s2 = trace ?st0 @ tr"
      "filter is_provider_call tr =
         map (\<lambda>p. Call_CreateTags reg vol (fst p) (snd p)) (filter (\<lambda>p. \<not> present (Tags v0) p) ?P)"
      "tagsExisting s2 = tagsExisting ?st0 + length (filter (present (Tags v0)) ?P)"
      "tagsAdded s2 = tagsAdded ?st0 + length (filter (\<lambda>p. \<not> present (Tags v0) p) ?P)"
      "volumesTagged s2 = volumesTagged ?st0"
    unfolding delivered_def by blast
  have "since st s2 = Call_NewSession reg # Call_DescribeVolumes reg vol # tr"
    using tr(1) by (simp add: since_def call_def)
  moreover have "filter is_provider_call tr = map (\<lambda>p. Call_CreateTags reg vol (fst p) (snd p)) []"
    using tr(2) by (simp only: f1)
  ultimately have none: "applied (since st s2) = []"
    by (rule applied_since)
  have "tagsExisting s2 = tagsExisting st + length ?P"
    using tr(3) by (simp only: f2) (simp add: call_def)
  moreover have "tagsAdded s2 = tagsAdded st"
    using tr(4) by (simp only: f1) (simp add: call_def)
  moreover have "volumesTagged s2 = volumesTagged st"
    using tr(5) by (simp add: call_def)
  ultimately show ?thesis
    using r none by blast
qed

text \<open>
  C3, as the code has it. For every tag list in which no key stands with two different
  values: when a first pass of \<open>addAWSTags\<close> has fetched the tags of the volume and
  returns, and a second pass for the same tag list and volume fetches what the first left
  on the volume (the tags it fetched, with the pairs it created added or written over, in
  order), then the second pass returns, calls \<open>CreateTags\<close> for no pair, and finds every
  parsed pair existing.
\<close>

theorem second_pass_creates_nothing:
  assumes "splitVol awsVolumeID = Inr (reg, vol)"
    and "DescribeVolumes env (trace st @ [Call_NewSession reg]) reg vol = Inr (v1 # vs1)"
    and "addAWSTags env ctx s awsVolumeID sep st = Inr st1"
    and "NewSession env' (trace st') reg = None"
    and "DescribeVolumes env' (trace st' @ [Call_NewSession reg]) reg vol = Inr (v2 # vs2)"
    and "Tags v2 = foldl overwrite (Tags v1) (applied (since st st1))"
    and "\<forall>p \<in> set (parse_tags (Split s sep)). \<forall>q \<in> set (parse_tags (Split s sep)).
           fst p = fst q \<longrightarrow> snd p = snd q"
  shows "\<exists>st2. addAWSTags env' ctx' s awsVolumeID sep st' = Inr st2 \<and>
           applied (since st' st2) = [] \<and>
           tagsExisting st2 = tagsExisting st' + length (parse_tags (Split s sep)) \<and>
           tagsAdded st2 = tagsAdded st' \<and> volumesTagged st2 = volumesTagged st'"
proof -
  from first_pass_leaves [OF assms(1-3,7)]
  have "\<forall>p \<in> set (parse_tags (Split s sep)). scan (Tags v2) p = Some True"
    by (simp only: assms(6))
  with assms(1,4,5) show ?thesis
    by (rule pass_finds_all)
qed

theorem second_pass_creates_nothing_witness:
  "parse_tags (Split ''env=prod,team=infra'' '','') = [(''env'', ''prod''), (''team'', ''infra'')] \<and>
   addAWSTags (example_env False [\<lparr>Key = Some ''env'', Value = Some ''prod''\<rparr>]) background
     ''env=prod,team=infra'' ''aws://eu-west-1b/vol-0123456789abcdef0'' '','' start =
   Inr (final
     (addAWSTags (example_env False [\<lparr>Key = Some ''env'', Value = Some ''prod''\<rparr>]) background
        ''env=prod,team=infra'' ''aws://eu-west-1b/vol-0123456789abcdef0'' '','' start)
     (\<lambda>x. x)) \<and>
   foldl overwrite [\<lparr>Key = Some ''env'', Value = Some ''prod''\<rparr>]
     (applied (since start (final
        (addAWSTags (example_env False [\<lparr>Key = Some ''env'', Value = Some ''prod''\<rparr>]) background
           ''env=prod,team=infra'' ''aws://eu-west-1b/vol-0123456789abcdef0'' '','' start)
        (\<lambda>x. x)))) =
     [\<lparr>Key = Some ''env'', Value = Some ''prod''\<rparr>, \<lparr>Key = Some ''team'', Value = Some ''infra''\<rparr>] \<and>
   (\<exists>st2.
      addAWSTags
        (example_env False
           [\<lparr>Key = Some ''env'', Value = Some ''prod''\<rparr>, \<lparr>Key = Some ''team'', Value = Some ''infra''\<rparr>])
        background ''env=prod,team=infra'' ''aws://eu-west-1b/vol-0123456789abcdef0'' '',''
        (final
           (addAWSTags (example_env False [\<lparr>Key = Some ''env'', Value = Some ''prod''\<rparr>]) background
              ''env=prod,team=infra'' ''aws://eu-west-1b/vol-0123456789abcdef0'' '','' start)
           (\<lambda>x. x)) = Inr st2 \<and>
      applied (since
        (final
           (addAWSTags (example_env False [\<lparr>Key = Some ''env'', Value = Some ''prod''\<rparr>]) background
              ''env=prod,team=infra'' ''aws://eu-west-1b/vol-0123456789abcdef0'' '','' start)
           (\<lambda>x. x)) st2) = [] \<and>
      tagsExisting st2 = 3)"
proof -
  let ?R = "[\<lparr>Key = Some ''env'', Value = Some ''prod''\<rparr>]"
  let ?R' = "[\<lparr>Key = Some ''env'', Value = Some ''prod''\<rparr>, \<lparr>Key = Some ''team'', Value = Some ''infra''\<rparr>]"
  let ?id = "''aws://eu-west-1b/vol-0123456789abcdef0''"
  let ?s = "''env=prod,team=infra''"
  let ?r1 = "addAWSTags (example_env False ?R) background ?s ?id '','' start"
  let ?st1 = "final ?r1 (\<lambda>x. x)"
  have 1: "splitVol ?id = Inr (''eu-west-1'', ''vol-0123456789abcdef0'')"
    by code_simp
  have 2: "DescribeVolumes (example_env False ?R) (trace start @ [Call_NewSession ''eu-west-1''])
      ''eu-west-1'' ''vol-0123456789abcdef0'' = Inr (\<lparr>Tags = ?R\<rparr> # [])"
    by (simp add: example_env_def)
  have 3: "?r1 = Inr ?st1"
    by code_simp
  have 4: "NewSession (example_env False ?R') (trace ?st1) ''eu-west-1'' = None"
    by (simp add: example_env_def)
  have 5: "DescribeVolumes (example_env False ?R') (trace ?st1 @ [Call_NewSession ''eu-west-1''])
      ''eu-west-1'' ''vol-0123456789abcdef0'' = Inr (\<lparr>Tags = ?R'\<rparr> # [])"
    by (simp add: example_env_def)
  have 6: "foldl overwrite ?R (applied (since start ?st1)) = ?R'"
    by code_simp
  then have tags2: "Tags \<lparr>Tags = ?R'\<rparr> = foldl overwrite (Tags \<lparr>Tags = ?R\<rparr>) (applied (since start ?st1))"
    by simp
  have P: "parse_tags (Split ?s '','') = [(''env'', ''prod''), (''team'', ''infra'')]"
    by code_simp
  have 7: "\<forall>p \<in> set (parse_tags (Split ?s '','')). \<forall>q \<in> set (parse_tags (Split ?s '','')).
      fst p = fst q \<longrightarrow> snd p = snd q"
    by (simp add: P)
  have 8: "tagsExisting ?st1 = 1"
    by code_simp
  from second_pass_creates_nothing [OF 1 2 3 4 5 tags2 7, of background]
  have "\<exists>st2. addAWSTags (example_env False ?R') background ?s ?id '','' ?st1 = Inr st2 \<and>
      applied (since ?st1 st2) = [] \<and> tagsExisting st2 = 3"
    by (auto simp: P 8)
  with P 3 6 show ?thesis
    by blast
qed

text \<open>
  The claim C3 as the specification states it fails for a tag list that gives one key two
  values. The first pass creates both tags, the second over the first; the volume then
  holds the second value only, and the second pass creates the first tag again.
\<close>

theorem second_pass_creates_again:
  "aborted (addAWSTags (example_env False []) background ''env=prod,env=dev''
              ''aws://eu-west-1b/vol-0123456789abcdef0'' '','' start) = None \<and>
   foldl overwrite []
     (applied (since start (final
        (addAWSTags (example_env False []) background ''env=prod,env=dev''
           ''aws://eu-west-1b/vol-0123456789abcdef0'' '','' start)
        (\<lambda>x. x)))) =
     [\<lparr>Key = Some ''env'', Value = Some ''dev''\<rparr>] \<and>
   applied (since
     (final
        (addAWSTags (example_env False []) background ''env=prod,env=dev''
           ''aws://eu-west-1b/vol-0123456789abcdef0'' '','' start)
        (\<lambda>x. x))
     (final
        (addAWSTags (example_env False [\<lparr>Key = Some ''env'', Value = Some ''dev''\<rparr>]) background
           ''env=prod,env=dev'' ''aws://eu-west-1b/vol-0123456789abcdef0'' '',''
           (final
              (addAWSTags (example_env False []) background ''env=prod,env=dev''
                 ''aws://eu-west-1b/vol-0123456789abcdef0'' '','' start)
              (\<lambda>x. x)))
        (\<lambda>x. x))) =
     [(''env'', ''prod'')]"
  by code_simp

end
